theory Spec2Isabelle
  imports Main "HOL-Library.Sublist" "HOL-Library.AList"
begin

section \<open>Strings\<close>

text \<open>
  A JavaScript string is modelled by the bytes of its WTF-8 encoding (\<open>string\<close>, a list
  of 8-bit characters): the UTF-8 encoding of its code points, where a surrogate that is
  not part of a pair (a lone surrogate) is written as the three bytes \<open>ED\<close>, \<open>A0..BF\<close>,
  \<open>80..BF\<close>. Searching for an ASCII needle gives the same answer on the bytes as on the
  UTF-16 code units, since no byte of a multi-byte sequence is ASCII.
\<close>

text \<open>
  The failures the modelled code can raise: a \<^verbatim>\<open>TypeError\<close> of the language, the
  \<^verbatim>\<open>URIError\<close> of \<^verbatim>\<open>encodeURIComponent\<close> and \<^verbatim>\<open>decodeURIComponent\<close>, the error of a file
  that cannot be read and the error of a file that the spreadsheet library cannot
  decode. \<open>Unmodelled\<close> marks the operations whose outcome the model leaves open (they
  reach objects outside the tree, see \<open>get_prop\<close> and \<open>set_prop\<close> below); no property
  proved here rests on it.
\<close>

datatype js_error = TypeError | URIError | ReadError | ParseError | Unmodelled

definition in_range :: "char \<Rightarrow> nat \<Rightarrow> nat \<Rightarrow> bool" where
  "in_range c lo hi \<longleftrightarrow> lo \<le> of_char c \<and> (of_char c :: nat) \<le> hi"

text \<open>A lone surrogate occurs in a string: the byte \<open>ED\<close> followed by a byte in \<open>A0..BF\<close>.\<close>

fun has_lone_surrogate :: "string \<Rightarrow> bool" where
  "has_lone_surrogate (a # b # rest) =
     ((a = CHR 0xED \<and> in_range b 0xA0 0xBF) \<or> has_lone_surrogate (b # rest))"
| "has_lone_surrogate s = False"

text \<open>\<^verbatim>\<open>s.includes(k)\<close>: \<open>k\<close> occurs in \<open>s\<close> as a contiguous block.\<close>

fun str_includes :: "string \<Rightarrow> string \<Rightarrow> bool" where
  "str_includes [] k = (k = [])"
| "str_includes (c # cs) k = (prefix k (c # cs) \<or> str_includes cs k)"

text \<open>
  \<^verbatim>\<open>s.toLowerCase()\<close> on the ASCII letters. The Unicode case mapping of other characters
  is not modelled: their bytes are kept. The only non-ASCII characters whose lower case
  contains an ASCII letter are U+0130 (giving \<open>i\<close> followed by U+0307) and U+212A
  (giving \<open>k\<close>); neither can complete one of the keywords searched for below.
\<close>

definition toLowerCase_char :: "char \<Rightarrow> char" where
  "toLowerCase_char c =
     (case map_of (zip ''ABCDEFGHIJKLMNOPQRSTUVWXYZ'' ''abcdefghijklmnopqrstuvwxyz'') c of
        Some l \<Rightarrow> l
      | None \<Rightarrow> c)"

definition toLowerCase :: "string \<Rightarrow> string" where
  "toLowerCase s = map toLowerCase_char s"

text \<open>
  \<^verbatim>\<open>s.trim()\<close> removes, from both ends, the characters of the ECMAScript classes
  WhiteSpace and LineTerminator. They are listed here by their UTF-8 encodings: TAB, LF,
  VT, FF, CR, SP, U+00A0, U+1680, U+2000 to U+200A, U+2028, U+2029, U+202F, U+205F,
  U+3000 and U+FEFF.
\<close>

definition js_whitespace :: "string list" where
  "js_whitespace =
     [[CHR 0x09], [CHR 0x0A], [CHR 0x0B], [CHR 0x0C], [CHR 0x0D], [CHR 0x20],
      [CHR 0xC2, CHR 0xA0],
      [CHR 0xE1, CHR 0x9A, CHR 0x80],
      [CHR 0xE2, CHR 0x80, CHR 0x80], [CHR 0xE2, CHR 0x80, CHR 0x81],
      [CHR 0xE2, CHR 0x80, CHR 0x82], [CHR 0xE2, CHR 0x80, CHR 0x83],
      [CHR 0xE2, CHR 0x80, CHR 0x84], [CHR 0xE2, CHR 0x80, CHR 0x85],
      [CHR 0xE2, CHR 0x80, CHR 0x86], [CHR 0xE2, CHR 0x80, CHR 0x87],
      [CHR 0xE2, CHR 0x80, CHR 0x88], [CHR 0xE2, CHR 0x80, CHR 0x89],
      [CHR 0xE2, CHR 0x80, CHR 0x8A],
      [CHR 0xE2, CHR 0x80, CHR 0xA8], [CHR 0xE2, CHR 0x80, CHR 0xA9],
      [CHR 0xE2, CHR 0x80, CHR 0xAF],
      [CHR 0xE2, CHR 0x81, CHR 0x9F],
      [CHR 0xE3, CHR 0x80, CHR 0x80],
      [CHR 0xEF, CHR 0xBB, CHR 0xBF]]"

lemma js_whitespace_nonempty: "w \<in> set js_whitespace \<Longrightarrow> w \<noteq> []"
  by (auto simp: js_whitespace_def)

lemma find_whitespace_prefix:
  "find (\<lambda>w. prefix w s) js_whitespace = Some w \<Longrightarrow> w \<in> set js_whitespace \<and> prefix w s"
  by (auto simp: find_Some_iff)

lemma find_whitespace_suffix:
  "find (\<lambda>w. suffix w s) js_whitespace = Some w \<Longrightarrow> w \<in> set js_whitespace \<and> suffix w s"
  by (auto simp: find_Some_iff)

function trimStart :: "string \<Rightarrow> string" where
  "trimStart s =
     (case find (\<lambda>w. prefix w s) js_whitespace of
        Some w \<Rightarrow> trimStart (drop (length w) s)
      | None \<Rightarrow> s)"
  by pat_completeness auto
termination
proof (relation "measure length")
  show "wf (measure length)" by simp
next
  fix s w
  assume "find (\<lambda>w. prefix w s) js_whitespace = Some w"
  then have "w \<in> set js_whitespace" and "prefix w s"
    using find_whitespace_prefix by blast+
  then have "w \<noteq> []" and "length w \<le> length s"
    by (auto simp: js_whitespace_nonempty prefix_length_le)
  then show "(drop (length w) s, s) \<in> measure length"
    by (cases s; cases w) auto
qed

function trimEnd :: "string \<Rightarrow> string" where
  "trimEnd s =
     (case find (\<lambda>w. suffix w s) js_whitespace of
        Some w \<Rightarrow> trimEnd (take (length s - length w) s)
      | None \<Rightarrow> s)"
  by pat_completeness auto
termination
proof (relation "measure length")
  show "wf (measure length)" by simp
next
  fix s w
  assume "find (\<lambda>w. suffix w s) js_whitespace = Some w"
  then have "w \<in> set js_whitespace" and "suffix w s"
    using find_whitespace_suffix by blast+
  then have "w \<noteq> []" and "length w \<le> length s"
    by (auto simp: js_whitespace_nonempty suffix_length_le)
  then show "(take (length s - length w) s, s) \<in> measure length"
    by (cases s; cases w) auto
qed

declare trimStart.simps [simp del] trimEnd.simps [simp del]

definition trim :: "string \<Rightarrow> string" where
  "trim s = trimEnd (trimStart s)"

text \<open>
  A string is empty or all whitespace when it is a concatenation of whitespace
  characters (of none, for the empty string).
\<close>

definition all_whitespace :: "string \<Rightarrow> bool" where
  "all_whitespace s \<longleftrightarrow> (\<exists>ws. set ws \<subseteq> set js_whitespace \<and> s = concat ws)"


section \<open>URL normalization (videoPlayer.ts)\<close>

text \<open>
  \<^verbatim>\<open>encodeURIComponent\<close> keeps the unreserved characters
  \<^verbatim>\<open>A-Z a-z 0-9 - _ . ! ~ * ' ( )\<close> and writes every other byte of the UTF-8 encoding as
  \<open>%\<close> and two upper-case hexadecimal digits. On a string that holds a lone surrogate
  it raises \<^verbatim>\<open>URIError\<close>.
\<close>

definition uri_unreserved :: "string" where
  "uri_unreserved =
     ''ABCDEFGHIJKLMNOPQRSTUVWXYZabcdefghijklmnopqrstuvwxyz0123456789-_.!~*()'' @ [CHR 0x27]"

definition hex_digit :: "nat \<Rightarrow> char" where
  "hex_digit n = ''0123456789ABCDEF'' ! n"

definition encode_byte :: "char \<Rightarrow> string" where
  "encode_byte c =
     (if c \<in> set uri_unreserved then [c]
      else [CHR ''%'', hex_digit (of_char c div 16), hex_digit (of_char c mod 16)])"

definition percent_encode :: "string \<Rightarrow> string" where
  "percent_encode s = concat (map encode_byte s)"

definition encodeURIComponent :: "string \<Rightarrow> js_error + string" where
  "encodeURIComponent s =
     (if has_lone_surrogate s then Inl URIError else Inr (percent_encode s))"

definition livePrefix :: "string" where
  "livePrefix = ''https://edumastervideoplarerwatch.netlify.app/live/''"

definition recPrefix :: "string" where
  "recPrefix = ''https://edumastervideoplarerwatch.netlify.app/rec/''"

text \<open>
  \<^verbatim>\<open>getVideoPlayerURL(videoUrl, isLive = false)\<close>. The test \<^verbatim>\<open>!videoUrl\<close> is true of the empty
  string; \<^verbatim>\<open>!videoUrl.trim()\<close> of a string that trims to the empty string. The call of
  \<^verbatim>\<open>encodeURIComponent\<close> is not guarded: its error is the error of the function.
\<close>

definition getVideoPlayerURL :: "string \<Rightarrow> bool \<Rightarrow> js_error + string" where
  "getVideoPlayerURL videoUrl isLive =
     (if videoUrl = [] \<or> trim videoUrl = [] then Inr ''#''
      else if prefix livePrefix videoUrl \<or> prefix recPrefix videoUrl then Inr videoUrl
      else (let prefix' = (if isLive then livePrefix else recPrefix)
            in case encodeURIComponent videoUrl of
                 Inl e \<Rightarrow> Inl e
               | Inr encoded \<Rightarrow> Inr (prefix' @ encoded)))"

section \<open>Section classifier (xlsxParser.ts, getSectionTypeFromName)\<close>

datatype section_type = Video | Notes | Assignment | Quiz

definition getSectionTypeFromName :: "string \<Rightarrow> section_type" where
  "getSectionTypeFromName name =
     (let lowerName = toLowerCase name in
      if str_includes lowerName ''video'' then Video
      else if str_includes lowerName ''notes'' then Notes
      else if str_includes lowerName ''quiz'' then Quiz
      else if str_includes lowerName ''dpp'' \<or> str_includes lowerName ''acp''
            \<or> str_includes lowerName ''wpp'' \<or> str_includes lowerName ''otp''
            \<or> str_includes lowerName ''assignment'' then Assignment
      else Video)"

text \<open>
  The classifier as the specification words it: an ordered keyword list, searched
  case-insensitively, the first keyword found deciding, and video when none is found.
\<close>

definition keyword_list :: "(string \<times> section_type) list" where
  "keyword_list =
     [(''video'', Video), (''notes'', Notes), (''quiz'', Quiz),
      (''dpp'', Assignment), (''acp'', Assignment), (''wpp'', Assignment),
      (''otp'', Assignment), (''assignment'', Assignment)]"

definition classify_spec :: "string \<Rightarrow> section_type" where
  "classify_spec name =
     (case find (\<lambda>kt. str_includes (toLowerCase name) (fst kt)) keyword_list of
        Some kt \<Rightarrow> snd kt
      | None \<Rightarrow> Video)"

section \<open>Row parser and folder aggregator (xlsxParser.ts)\<close>

text \<open>
  \<^verbatim>\<open>s.split(sep)\<close> for a separator of one character: the pieces between the separators,
  always at least one piece.
\<close>

fun split_on :: "char \<Rightarrow> string \<Rightarrow> string list" where
  "split_on sep [] = [[]]"
| "split_on sep (c # cs) =
     (let r = split_on sep cs in
      if c = sep then [] # r else (c # hd r) # tl r)"

text \<open>
  \<^verbatim>\<open>s.replace(pat, rep)\<close> for a string pattern: the first occurrence of the pattern is
  replaced, the rest of the string is kept.
\<close>

fun replace_first :: "string \<Rightarrow> string \<Rightarrow> string \<Rightarrow> string" where
  "replace_first [] pat rep = (if pat = [] then rep else [])"
| "replace_first (c # cs) pat rep =
     (if prefix pat (c # cs) then rep @ drop (length pat) (c # cs)
      else c # replace_first cs pat rep)"

text \<open>
  The decimal spelling of a natural number, as \<^verbatim>\<open>toString\<close> gives it for the integers
  it prints without an exponent.
\<close>

fun decimal :: "nat \<Rightarrow> string" where
  "decimal n = (if n < 10 then [hex_digit n] else decimal (n div 10) @ [hex_digit (n mod 10)])"

declare decimal.simps [simp del]

text \<open>
  Percent-decoding as \<^verbatim>\<open>URLSearchParams\<close> does it: an escape \<open>%XX\<close> with two hexadecimal
  digits becomes the byte, any other \<open>%\<close> is kept.
\<close>

definition hex_value :: "char \<Rightarrow> nat option" where
  "hex_value c =
     map_of (zip ''0123456789ABCDEFabcdef'' ([0 ..< 16] @ [10 ..< 16])) c"

fun percent_decode :: "string \<Rightarrow> string" where
  "percent_decode (p # h # l # rest) =
     (case (if p = CHR ''%'' then hex_value h else None, hex_value l) of
        (Some a, Some b) \<Rightarrow> char_of (16 * a + b) # percent_decode rest
      | _ \<Rightarrow> p # percent_decode (h # l # rest))"
| "percent_decode s = s"

text \<open>
  The UTF-8 decoder of \<^verbatim>\<open>URLSearchParams\<close> (the decoder of the Encoding standard, with
  replacement): well-formed sequences are kept, every ill-formed part becomes U+FFFD.
  The state is the number of bytes still needed, the bytes seen of the current
  sequence, and the bounds on the next byte.
\<close>

definition replacement_character :: "string" where
  "replacement_character = [CHR 0xEF, CHR 0xBF, CHR 0xBD]"

fun utf8_decode :: "nat \<Rightarrow> string \<Rightarrow> nat \<Rightarrow> nat \<Rightarrow> string \<Rightarrow> string" where
  "utf8_decode needed seen lower upper [] = (if needed = 0 then [] else replacement_character)"
| "utf8_decode needed seen lower upper (b # bs) =
     (let n = (of_char b :: nat) in
      if needed = 0 then
        (if n < 0x80 then b # utf8_decode 0 [] 0x80 0xBF bs
         else if 0xC2 \<le> n \<and> n \<le> 0xDF then utf8_decode 1 [b] 0x80 0xBF bs
         else if 0xE0 \<le> n \<and> n \<le> 0xEF then
           utf8_decode 2 [b] (if n = 0xE0 then 0xA0 else 0x80) (if n = 0xED then 0x9F else 0xBF) bs
         else if 0xF0 \<le> n \<and> n \<le> 0xF4 then
           utf8_decode 3 [b] (if n = 0xF0 then 0x90 else 0x80) (if n = 0xF4 then 0x8F else 0xBF) bs
         else replacement_character @ utf8_decode 0 [] 0x80 0xBF bs)
      else if n < lower \<or> upper < n then
        replacement_character @ utf8_decode 0 [] 0x80 0xBF (b # bs)
      else if needed = 1 then seen @ [b] @ utf8_decode 0 [] 0x80 0xBF bs
      else utf8_decode (needed - 1) (seen @ [b]) 0x80 0xBF bs)"


text \<open>
  \<^verbatim>\<open>decodeURIComponent\<close>: every \<open>%\<close> must start an escape \<open>%XX\<close>; an escape below 0x80 is
  that character; a higher one announces by its leading one bits a sequence of two to
  four escapes, which must be a well-formed UTF-8 sequence. Anything else raises
  \<^verbatim>\<open>URIError\<close>.
\<close>

fun take_escape :: "string \<Rightarrow> (char \<times> string) option" where
  "take_escape (p # h # l # rest) =
     (if p = CHR ''%'' then
        (case (hex_value h, hex_value l) of
           (Some a, Some b) \<Rightarrow> Some (char_of (16 * a + b), rest)
         | _ \<Rightarrow> None)
      else None)"
| "take_escape s = None"

fun take_continuations :: "nat \<Rightarrow> string \<Rightarrow> (string \<times> string) option" where
  "take_continuations 0 s = Some ([], s)"
| "take_continuations (Suc k) s =
     (case take_escape s of
        None \<Rightarrow> None
      | Some (b, rest) \<Rightarrow>
          (case take_continuations k rest of
             None \<Rightarrow> None
           | Some (bs, rest') \<Rightarrow> Some (b # bs, rest')))"

definition utf8_sequence_length :: "char \<Rightarrow> nat" where
  "utf8_sequence_length b =
     (if in_range b 0xC0 0xDF then 2
      else if in_range b 0xE0 0xEF then 3
      else if in_range b 0xF0 0xF7 then 4
      else 0)"

fun utf8_valid :: "string \<Rightarrow> bool" where
  "utf8_valid [a, b] = (in_range a 0xC2 0xDF \<and> in_range b 0x80 0xBF)"
| "utf8_valid [a, b, c] =
     (in_range a 0xE0 0xEF
      \<and> in_range b (if a = CHR 0xE0 then 0xA0 else 0x80) (if a = CHR 0xED then 0x9F else 0xBF)
      \<and> in_range c 0x80 0xBF)"
| "utf8_valid [a, b, c, d] =
     (in_range a 0xF0 0xF4
      \<and> in_range b (if a = CHR 0xF0 then 0x90 else 0x80) (if a = CHR 0xF4 then 0x8F else 0xBF)
      \<and> in_range c 0x80 0xBF \<and> in_range d 0x80 0xBF)"
| "utf8_valid s = False"

lemma take_escape_length: "take_escape s = Some (b, rest) \<Longrightarrow> length rest < length s"
  by (induction s rule: take_escape.induct) (auto split: if_splits option.splits)

lemma take_continuations_length:
  "take_continuations k s = Some (bs, rest) \<Longrightarrow> length rest \<le> length s"
proof (induction k arbitrary: s bs rest)
  case 0
  then show ?case by simp
next
  case (Suc k)
  then show ?case
    by (fastforce split: option.splits prod.splits dest: take_escape_length)
qed

function decodeURIComponent :: "string \<Rightarrow> js_error + string" where
  "decodeURIComponent [] = Inr []"
| "decodeURIComponent (c # cs) =
     (if c \<noteq> CHR ''%'' then
        (case decodeURIComponent cs of Inl e \<Rightarrow> Inl e | Inr r \<Rightarrow> Inr (c # r))
      else
        (case take_escape (c # cs) of
           None \<Rightarrow> Inl URIError
         | Some (b, rest) \<Rightarrow>
             if (of_char b :: nat) < 0x80 then
               (case decodeURIComponent rest of Inl e \<Rightarrow> Inl e | Inr r \<Rightarrow> Inr (b # r))
             else if utf8_sequence_length b = 0 then Inl URIError
             else
               (case take_continuations (utf8_sequence_length b - 1) rest of
                  None \<Rightarrow> Inl URIError
                | Some (octets, rest') \<Rightarrow>
                    if utf8_valid (b # octets) then
                      (case decodeURIComponent rest' of
                         Inl e \<Rightarrow> Inl e
                       | Inr r \<Rightarrow> Inr (b # octets @ r))
                    else Inl URIError)))"
  by pat_completeness auto
termination
proof (relation "measure length")
  show "wf (measure length)" by simp
next
  fix c :: char and cs :: string
  show "(cs, c # cs) \<in> measure length" by simp
next
  fix c cs x b rest
  assume "take_escape (c # cs) = Some x" "(b, rest) = x"
  then show "(rest, c # cs) \<in> measure length"
    using take_escape_length [of "c # cs" b rest] by simp
next
  fix c cs x b rest y octets rest'
  assume "take_escape (c # cs) = Some x" "(b, rest) = x"
    "take_continuations (utf8_sequence_length b - 1) rest = Some y" "(octets, rest') = y"
  then show "(rest', c # cs) \<in> measure length"
    using take_escape_length [of "c # cs" b rest]
      take_continuations_length [of "utf8_sequence_length b - 1" rest octets rest']
    by simp
qed

declare decodeURIComponent.simps [simp del]

text \<open>
  \<^verbatim>\<open>new URLSearchParams(init)\<close> and \<^verbatim>\<open>get\<close>: the argument is converted to a string of
  scalar values (every lone surrogate becomes U+FFFD), a leading \<open>?\<close> is dropped, the
  string is cut at \<open>&\<close>, empty pieces are skipped, each piece is cut at its first \<open>=\<close>,
  \<open>+\<close> becomes a space, and name and value are percent-decoded. \<^verbatim>\<open>get\<close> gives the first
  value of a name, or \<^verbatim>\<open>null\<close> (\<open>None\<close>).
\<close>

fun to_usv :: "string \<Rightarrow> string" where
  "to_usv (a # b # c # rest) =
     (if a = CHR 0xED \<and> in_range b 0xA0 0xBF then replacement_character @ to_usv rest
      else a # to_usv (b # c # rest))"
| "to_usv s = s"

definition form_decode :: "string \<Rightarrow> string" where
  "form_decode s =
     utf8_decode 0 [] 0x80 0xBF
       (percent_decode (map (\<lambda>c. if c = CHR ''+'' then CHR '' '' else c) s))"

definition parse_pair :: "string \<Rightarrow> string \<times> string" where
  "parse_pair s =
     (form_decode (takeWhile (\<lambda>c. c \<noteq> CHR ''='') s),
      form_decode (drop 1 (dropWhile (\<lambda>c. c \<noteq> CHR ''='') s)))"

definition URLSearchParams :: "string \<Rightarrow> (string \<times> string) list" where
  "URLSearchParams init =
     (let s = to_usv init in
      map parse_pair
        (filter (\<lambda>p. p \<noteq> [])
           (split_on (CHR ''&'') (if prefix ''?'' s then drop 1 s else s))))"

definition searchParams_get :: "(string \<times> string) list \<Rightarrow> string \<Rightarrow> string option" where
  "searchParams_get params name = map_of params name"


text \<open>
  \<^verbatim>\<open>XLSXContent\<close>, and the cells of \<^verbatim>\<open>sheet_to_json(worksheet, {header: 1})\<close>: a row is an
  array of cells, a cell is missing, a text, a number or a boolean. A number is
  modelled by its rendering by \<^verbatim>\<open>Number.prototype.toString\<close> (\<open>7\<close>, \<open>-2.5\<close>, \<open>1e+21\<close>,
  \<open>NaN\<close>), which determines it up to the sign of zero; the zeros are rendered \<open>0\<close>.
\<close>

record xlsx_content =
  xlsx_url :: string
  xlsx_title :: string

datatype cell = CellEmpty | CellString string | CellNumber string | CellBool bool

text \<open>
  The truth value of a cell in a condition (a number is false when it is a zero or
  \<^verbatim>\<open>NaN\<close>), and \<^verbatim>\<open>cell.toString()\<close>. The string of a missing cell is never asked for: the
  condition on the row fails first.
\<close>

fun truthy :: "cell \<Rightarrow> bool" where
  "truthy CellEmpty = False"
| "truthy (CellString s) = (s \<noteq> [])"
| "truthy (CellNumber n) = (n \<noteq> ''0'' \<and> n \<noteq> ''NaN'')"
| "truthy (CellBool b) = b"

fun cell_toString :: "cell \<Rightarrow> string" where
  "cell_toString (CellString s) = s"
| "cell_toString (CellNumber n) = n"
| "cell_toString (CellBool b) = (if b then ''true'' else ''false'')"
| "cell_toString CellEmpty = ''undefined''"

text \<open>
  The unwrapping of an embedded player link, inside the loop of \<^verbatim>\<open>parseXLSXFile\<close>.
  \<^verbatim>\<open>url.split('?')[1]\<close> is the piece after the first \<open>?\<close>; it exists whenever the test
  on \<^verbatim>\<open>url.includes\<close> has passed.
\<close>

definition extract_video_url :: "string \<Rightarrow> js_error + string" where
  "extract_video_url url =
     (if str_includes url ''eduverseplay?videoUrl='' then
        (let urlParams =
               URLSearchParams (case split_on (CHR ''?'') url of _ # q # _ \<Rightarrow> q | _ \<Rightarrow> [])
         in case searchParams_get urlParams ''videoUrl'' of
              None \<Rightarrow> Inr url
            | Some videoUrl \<Rightarrow>
                if videoUrl \<noteq> [] then decodeURIComponent videoUrl else Inr url)
      else Inr url)"

text \<open>
  The body of the loop of \<^verbatim>\<open>parseXLSXFile\<close>: the condition on a row, and the entry pushed
  for a row that passes it. The loop starts at index 1. An error raised in the loop
  rejects the whole parse.
\<close>

definition keep_row :: "cell list \<Rightarrow> bool" where
  "keep_row row \<longleftrightarrow> length row \<ge> 2 \<and> truthy (row ! 0) \<and> truthy (row ! 1)"

definition row_content :: "cell list \<Rightarrow> js_error + xlsx_content" where
  "row_content row =
     (let url = trim (cell_toString (row ! 0));
          title = trim (cell_toString (row ! 1))
      in case extract_video_url url of
           Inl e \<Rightarrow> Inl e
         | Inr url' \<Rightarrow> Inr \<lparr>xlsx_url = url', xlsx_title = title\<rparr>)"

function parse_rows_from :: "nat \<Rightarrow> cell list list \<Rightarrow> xlsx_content list \<Rightarrow> js_error + xlsx_content list" where
  "parse_rows_from i jsonData contents =
     (if i < length jsonData then
        (let row = jsonData ! i in
         if keep_row row then
           (case row_content row of
              Inl e \<Rightarrow> Inl e
            | Inr c \<Rightarrow> parse_rows_from (i + 1) jsonData (contents @ [c]))
         else parse_rows_from (i + 1) jsonData contents)
      else Inr contents)"
  by pat_completeness auto
termination
  by (relation "measure (\<lambda>(i, jsonData, contents). length jsonData - i)") auto

declare parse_rows_from.simps [simp del]

definition parse_rows :: "cell list list \<Rightarrow> js_error + xlsx_content list" where
  "parse_rows jsonData = parse_rows_from 1 jsonData []"

text \<open>
  A \<^verbatim>\<open>File\<close>: its name, its relative path and what reading and decoding it gives (a read
  failure, a decoding failure of the spreadsheet library, or the rows of the first
  sheet).
\<close>

datatype file_data = Unreadable | Undecodable | Sheet "cell list list"

record js_file =
  file_name :: string
  file_webkitRelativePath :: string
  file_data :: file_data

definition parseXLSXFile :: "js_file \<Rightarrow> js_error + xlsx_content list" where
  "parseXLSXFile f =
     (case file_data f of
        Unreadable \<Rightarrow> Inl ReadError
      | Undecodable \<Rightarrow> Inl ParseError
      | Sheet jsonData \<Rightarrow> parse_rows jsonData)"

text \<open>
  A plain object is modelled by the list of its own properties, in the order in which
  the language enumerates them: the keys that are array indices first, in ascending
  order, then the other keys in the order of their creation. Assigning to an own key
  replaces its value in place. What a plain object does not own it inherits from
  \<^verbatim>\<open>Object.prototype\<close>, whose members are listed here; \<open>__proto__\<close> is an accessor, whose
  setter creates no property.
\<close>

definition object_prototype_names :: "string list" where
  "object_prototype_names =
     [''constructor'', ''__defineGetter__'', ''__defineSetter__'', ''hasOwnProperty'',
      ''__lookupGetter__'', ''__lookupSetter__'', ''isPrototypeOf'', ''propertyIsEnumerable'',
      ''toString'', ''valueOf'', ''__proto__'', ''toLocaleString'']"

definition digit_value :: "char \<Rightarrow> nat option" where
  "digit_value c = map_of (zip ''0123456789'' [0 ..< 10]) c"

definition canonical_index :: "string \<Rightarrow> nat option" where
  "canonical_index k =
     (if k \<noteq> [] \<and> list_all (\<lambda>c. digit_value c \<noteq> None) k \<and> (k = ''0'' \<or> hd k \<noteq> CHR ''0'')
      then Some (foldl (\<lambda>a c. 10 * a + the (digit_value c)) 0 k)
      else None)"

definition index_key :: "string \<Rightarrow> nat option" where
  "index_key k =
     (case canonical_index k of
        Some n \<Rightarrow> if n < 4294967295 then Some n else None
      | None \<Rightarrow> None)"

definition before_index :: "nat \<Rightarrow> string \<times> 'v \<Rightarrow> bool" where
  "before_index n kv = (case index_key (fst kv) of Some m \<Rightarrow> m < n | None \<Rightarrow> False)"

definition own_update :: "string \<Rightarrow> 'v \<Rightarrow> (string \<times> 'v) list \<Rightarrow> (string \<times> 'v) list" where
  "own_update k v obj =
     (case map_of obj k of
        Some old \<Rightarrow> AList.update k v obj
      | None \<Rightarrow>
          (case index_key k of
             None \<Rightarrow> obj @ [(k, v)]
           | Some n \<Rightarrow> takeWhile (before_index n) obj @ (k, v) # dropWhile (before_index n) obj))"

text \<open>
  \<^verbatim>\<open>processFolderStructure\<close> builds an object keyed by batch name, of objects keyed by
  subject name, of objects keyed by section name.
\<close>

record parsed_section =
  ps_name :: string
  ps_type :: section_type
  ps_contents :: "xlsx_content list"

record subject_entry =
  se_name :: string
  se_sections :: "(string \<times> parsed_section) list"

record batch_entry =
  be_name :: string
  be_subjects :: "(string \<times> subject_entry) list"

definition ensure_key :: "string \<Rightarrow> 'v \<Rightarrow> (string \<times> 'v) list \<Rightarrow> (string \<times> 'v) list" where
  "ensure_key k v obj = (if map_of obj k = None then AList.update k v obj else obj)"

definition process_file :: "(string \<times> batch_entry) list \<Rightarrow> js_file \<Rightarrow> (string \<times> batch_entry) list" where
  "process_file batches f =
     (let pathParts = split_on (CHR ''/'') (file_webkitRelativePath f) in
      if length pathParts \<ge> 3 \<and> suffix ''.xlsx'' (file_name f) then
        (let batchName = pathParts ! 0;
             subjectName = pathParts ! 1;
             fileName = replace_first (file_name f) ''.xlsx'' [];
             batches1 = ensure_key batchName \<lparr>be_name = batchName, be_subjects = []\<rparr> batches;
             batches2 =
               AList.map_entry batchName
                 (\<lambda>b. b\<lparr>be_subjects :=
                       ensure_key subjectName \<lparr>se_name = subjectName, se_sections = []\<rparr>
                         (be_subjects b)\<rparr>)
                 batches1
         in case parseXLSXFile f of
              Inl e \<Rightarrow> batches2
            | Inr contents \<Rightarrow>
                AList.map_entry batchName
                  (\<lambda>b. b\<lparr>be_subjects :=
                        AList.map_entry subjectName
                          (\<lambda>s. s\<lparr>se_sections :=
                                AList.update fileName
                                  \<lparr>ps_name = fileName,
                                   ps_type = getSectionTypeFromName fileName,
                                   ps_contents = contents\<rparr>
                                  (se_sections s)\<rparr>)
                          (be_subjects b)\<rparr>)
                  batches2)
      else batches)"

definition processFolderStructure :: "js_file list \<Rightarrow> (string \<times> batch_entry) list" where
  "processFolderStructure files = foldl process_file [] files"

section \<open>Tree model and path-addressed update (BatchEditor.tsx)\<close>

text \<open>
  The editor keeps the batch as a plain JavaScript value, and \<^verbatim>\<open>handleNestedChange\<close> walks
  it with untyped paths. A value is undefined, null, a boolean, a number (an integer
  here; a date is its time value), a string, an array or an object. An array is the list
  of its slots, \<open>None\<close> for a hole; an object is a plain object, the list of its own
  properties.
\<close>

datatype jsval =
    Undefined
  | Null
  | Bool bool
  | Num int
  | Str string
  | Arr "jsval option list"
  | Obj "(string \<times> jsval) list"

text \<open>
  A path segment is a string or a number (\<^verbatim>\<open>(string | number)[]\<close>); the numbers are
  array indices, modelled by the natural numbers. At an object a number names the
  property spelled in decimal; at an array a string names a slot when it is the
  canonical spelling of an index.
\<close>

datatype seg = Key string | Idx nat

fun prop_key :: "seg \<Rightarrow> string" where
  "prop_key (Key k) = k"
| "prop_key (Idx n) = decimal n"

fun array_index :: "seg \<Rightarrow> nat option" where
  "array_index (Idx n) = Some n"
| "array_index (Key k) = canonical_index k"

text \<open>
  \<^verbatim>\<open>current[segment]\<close>. Reading a property of undefined or null raises \<^verbatim>\<open>TypeError\<close>. At
  an object an own property reads as its value; a name that is not own reads as
  undefined, unless it is a member of \<^verbatim>\<open>Object.prototype\<close>: then the read gives that
  member, an object outside the tree, and what the code does with it is outside the
  model. At an array an index reads as the slot (undefined for a hole or beyond the
  length) and \<open>length\<close> as the length; the other names, and every member of a boolean,
  a number or a string, are outside the model as well.
\<close>

fun get_prop :: "jsval \<Rightarrow> seg \<Rightarrow> js_error + jsval" where
  "get_prop Undefined s = Inl TypeError"
| "get_prop Null s = Inl TypeError"
| "get_prop (Obj kvs) s =
     (case map_of kvs (prop_key s) of
        Some v \<Rightarrow> Inr v
      | None \<Rightarrow> if prop_key s \<in> set object_prototype_names then Inl Unmodelled else Inr Undefined)"
| "get_prop (Arr xs) s =
     (case array_index s of
        Some n \<Rightarrow>
          Inr (if n < length xs then (case xs ! n of Some v \<Rightarrow> v | None \<Rightarrow> Undefined)
               else Undefined)
      | None \<Rightarrow> if s = Key ''length'' then Inr (Num (int (length xs))) else Inl Unmodelled)"
| "get_prop v s = Inl Unmodelled"

text \<open>
  \<^verbatim>\<open>current[segment] = v\<close> on a draft. On an object an own property is replaced in place
  and a new one is added at its place in the order of the keys; assigning to
  \<open>__proto__\<close>, when it is not an own property, runs the inherited setter and is outside
  the model. On an array the slot is replaced, or the array grows up to the index,
  leaving holes; assigning to the length or to another property of a draft array that
  is not an index depends on the build of the immer library and is outside the model.
  On undefined and null the assignment raises \<^verbatim>\<open>TypeError\<close>, and so it does (the module
  being in strict mode) on a boolean, a number or a string, except for \<open>__proto__\<close>,
  where the inherited setter runs.
\<close>

fun set_prop :: "jsval \<Rightarrow> seg \<Rightarrow> jsval \<Rightarrow> js_error + jsval" where
  "set_prop (Obj kvs) s v =
     (if map_of kvs (prop_key s) = None \<and> prop_key s = ''__proto__'' then Inl Unmodelled
      else Inr (Obj (own_update (prop_key s) v kvs)))"
| "set_prop (Arr xs) s v =
     (case array_index s of
        Some n \<Rightarrow>
          Inr (Arr (if n < length xs then xs[n := Some v]
                    else xs @ replicate (n - length xs) None @ [Some v]))
      | None \<Rightarrow> Inl Unmodelled)"
| "set_prop Undefined s v = Inl TypeError"
| "set_prop Null s v = Inl TypeError"
| "set_prop t s v = (if prop_key s = ''__proto__'' then Inl Unmodelled else Inl TypeError)"

text \<open>
  The loop of \<^verbatim>\<open>handleNestedChange\<close> and the assignment after it. The code walks down
  the draft by reference and assigns into the last object reached; on values, the
  changed child is put back into its parent at the segment it was read from. For the
  empty path \<^verbatim>\<open>path[path.length - 1]\<close> is undefined, which names the property
  \<open>undefined\<close> of the root.
\<close>

fun assign_path :: "jsval \<Rightarrow> seg list \<Rightarrow> jsval \<Rightarrow> js_error + jsval" where
  "assign_path current [] v = set_prop current (Key ''undefined'') v"
| "assign_path current [s] v = set_prop current s v"
| "assign_path current (s # s' # ss) v =
     (case get_prop current s of
        Inl e \<Rightarrow> Inl e
      | Inr child \<Rightarrow>
          (case assign_path child (s' # ss) v of
             Inl e \<Rightarrow> Inl e
           | Inr child' \<Rightarrow> set_prop current s child'))"

text \<open>
  \<^verbatim>\<open>array.forEach(callback)\<close> with a callback that mutates its argument: holes are
  skipped, an error in the callback ends the loop. On a value that is not an array the
  call raises \<^verbatim>\<open>TypeError\<close>. \<open>update_prop\<close> reads a property, runs a mutation on it and
  puts the result back.
\<close>

fun for_each :: "(jsval \<Rightarrow> js_error + jsval) \<Rightarrow> jsval option list \<Rightarrow> js_error + jsval option list" where
  "for_each f [] = Inr []"
| "for_each f (None # xs) =
     (case for_each f xs of Inl e \<Rightarrow> Inl e | Inr ys \<Rightarrow> Inr (None # ys))"
| "for_each f (Some x # xs) =
     (case f x of
        Inl e \<Rightarrow> Inl e
      | Inr y \<Rightarrow> (case for_each f xs of Inl e \<Rightarrow> Inl e | Inr ys \<Rightarrow> Inr (Some y # ys)))"

fun forEach :: "jsval \<Rightarrow> (jsval \<Rightarrow> js_error + jsval) \<Rightarrow> js_error + jsval" where
  "forEach (Arr xs) f = (case for_each f xs of Inl e \<Rightarrow> Inl e | Inr ys \<Rightarrow> Inr (Arr ys))"
| "forEach t f = Inl TypeError"

definition update_prop :: "jsval \<Rightarrow> seg \<Rightarrow> (jsval \<Rightarrow> js_error + jsval) \<Rightarrow> js_error + jsval" where
  "update_prop t s f =
     (case get_prop t s of
        Inl e \<Rightarrow> Inl e
      | Inr child \<Rightarrow> (case f child of Inl e \<Rightarrow> Inl e | Inr child' \<Rightarrow> set_prop t s child'))"

text \<open>
  The cascade of \<^verbatim>\<open>handleNestedChange\<close>:
  \<^verbatim>\<open>draft.subjects[subjectIndex].sections.forEach(section => section.contents.forEach(content => { content.thumbnail = value }))\<close>.
\<close>

definition cascade_thumbnail :: "jsval \<Rightarrow> seg \<Rightarrow> jsval \<Rightarrow> js_error + jsval" where
  "cascade_thumbnail draft subjectIndex v =
     update_prop draft (Key ''subjects'') (\<lambda>subjects.
       update_prop subjects subjectIndex (\<lambda>subject.
         update_prop subject (Key ''sections'') (\<lambda>sections.
           forEach sections (\<lambda>section.
             update_prop section (Key ''contents'') (\<lambda>contents.
               forEach contents (\<lambda>content.
                 set_prop content (Key ''thumbnail'') v))))))"

text \<open>
  \<^verbatim>\<open>handleNestedChange(path, value)\<close>: the recipe given to \<^verbatim>\<open>produce\<close>, from the current
  batch to the next one. When the recipe raises, no new state is set: the result is
  the error.
\<close>

definition handleNestedChange :: "jsval \<Rightarrow> seg list \<Rightarrow> jsval \<Rightarrow> js_error + jsval" where
  "handleNestedChange batchData path v =
     (case assign_path batchData path v of
        Inl e \<Rightarrow> Inl e
      | Inr draft \<Rightarrow>
          if length path = 3 \<and> path ! 0 = Key ''subjects'' \<and> path ! 2 = Key ''thumbnail''
          then cascade_thumbnail draft (path ! 1) v
          else Inr draft)"

text \<open>
  Modelled from the spec: the declarations of \<^verbatim>\<open>Batch\<close>, \<^verbatim>\<open>Subject\<close>, \<^verbatim>\<open>Section\<close> and
  \<^verbatim>\<open>Content\<close> (the module \<^verbatim>\<open>types\<close>) are not among the sources; the fields are those of the
  specification's data model, the thumbnail of a content being optional. The identifier
  of a batch is absent while a new batch is edited.
\<close>

record Content =
  content_id :: string
  content_title :: string
  content_url :: string
  content_type :: section_type
  content_thumbnail :: "string option"

record Section =
  section_id :: string
  section_name :: string
  section_type :: section_type
  section_contents :: "Content list"

record Subject =
  subject_id :: string
  subject_name :: string
  subject_thumbnail :: string
  subject_sections :: "Section list"

record Batch =
  batch_id :: "string option"
  batch_name :: string
  batch_description :: string
  batch_thumbnail :: string
  batch_layout :: string
  batch_subjects :: "Subject list"
  batch_createdAt :: int
  batch_isActive :: bool
  batch_enrolledStudents :: int

text \<open>
  The JavaScript value of a typed tree.
\<close>

fun type_js :: "section_type \<Rightarrow> jsval" where
  "type_js Video = Str ''video''"
| "type_js Notes = Str ''notes''"
| "type_js Assignment = Str ''assignment''"
| "type_js Quiz = Str ''quiz''"

definition content_js :: "Content \<Rightarrow> jsval" where
  "content_js c =
     Obj ([(''id'', Str (content_id c)), (''title'', Str (content_title c)),
           (''url'', Str (content_url c)), (''type'', type_js (content_type c))]
          @ (case content_thumbnail c of None \<Rightarrow> [] | Some t \<Rightarrow> [(''thumbnail'', Str t)]))"

definition section_js :: "Section \<Rightarrow> jsval" where
  "section_js s =
     Obj [(''id'', Str (section_id s)), (''name'', Str (section_name s)),
          (''type'', type_js (section_type s)),
          (''contents'', Arr (map (\<lambda>c. Some (content_js c)) (section_contents s)))]"

definition subject_js :: "Subject \<Rightarrow> jsval" where
  "subject_js s =
     Obj [(''id'', Str (subject_id s)), (''name'', Str (subject_name s)),
          (''thumbnail'', Str (subject_thumbnail s)),
          (''sections'', Arr (map (\<lambda>x. Some (section_js x)) (subject_sections s)))]"

definition batch_js :: "Batch \<Rightarrow> jsval" where
  "batch_js b =
     Obj ((case batch_id b of None \<Rightarrow> [] | Some i \<Rightarrow> [(''id'', Str i)])
          @ [(''name'', Str (batch_name b)), (''description'', Str (batch_description b)),
             (''thumbnail'', Str (batch_thumbnail b)), (''layout'', Str (batch_layout b)),
             (''subjects'', Arr (map (\<lambda>s. Some (subject_js s)) (batch_subjects b))),
             (''createdAt'', Num (batch_createdAt b)), (''isActive'', Bool (batch_isActive b)),
             (''enrolledStudents'', Num (batch_enrolledStudents b))])"

text \<open>
  The node reached by following a path, in the sense of the specification: a string
  segment names an own property of an object, a number segment a filled slot of an
  array; \<open>None\<close> when a segment names nothing.
\<close>

fun step :: "jsval \<Rightarrow> seg \<Rightarrow> jsval option" where
  "step (Obj kvs) (Key k) = map_of kvs k"
| "step (Arr xs) (Idx n) = (if n < length xs then xs ! n else None)"
| "step t s = None"

fun lookup :: "jsval \<Rightarrow> seg list \<Rightarrow> jsval option" where
  "lookup t [] = Some t"
| "lookup t (s # ss) = (case step t s of None \<Rightarrow> None | Some child \<Rightarrow> lookup child ss)"

text \<open>
  The paths on which the cascade fires.
\<close>

definition cascade_path :: "seg list \<Rightarrow> bool" where
  "cascade_path path \<longleftrightarrow>
     length path = 3 \<and> path ! 0 = Key ''subjects'' \<and> path ! 2 = Key ''thumbnail''"

text \<open>
  The typed tree after a subject's thumbnail and those of all its contents are set.
\<close>

definition cascade_subject :: "string \<Rightarrow> Subject \<Rightarrow> Subject" where
  "cascade_subject v s =
     s\<lparr>subject_thumbnail := v,
       subject_sections :=
         map (\<lambda>sec. sec\<lparr>section_contents :=
                map (\<lambda>c. c\<lparr>content_thumbnail := Some v\<rparr>) (section_contents sec)\<rparr>)
           (subject_sections s)\<rparr>"

definition cascade_batch :: "Batch \<Rightarrow> nat \<Rightarrow> string \<Rightarrow> Batch" where
  "cascade_batch b i v =
     b\<lparr>batch_subjects := (batch_subjects b)[i := cascade_subject v (batch_subjects b ! i)]\<rparr>"

text \<open>
  A batch of two subjects, used in the examples below.
\<close>

definition example_batch :: Batch where
  "example_batch =
     \<lparr>batch_id = None, batch_name = ''B'', batch_description = ''d'', batch_thumbnail = ''bt'',
      batch_layout = ''standard-grid'',
      batch_subjects =
        [\<lparr>subject_id = ''s1'', subject_name = ''Math'', subject_thumbnail = ''old'',
          subject_sections =
            [\<lparr>section_id = ''x1'', section_name = ''Algebra'', section_type = Video,
              section_contents =
                [\<lparr>content_id = ''c1'', content_title = ''t1'', content_url = ''u1'',
                  content_type = Video, content_thumbnail = Some ''old''\<rparr>,
                 \<lparr>content_id = ''c2'', content_title = ''t2'', content_url = ''u2'',
                  content_type = Video, content_thumbnail = None\<rparr>]\<rparr>]\<rparr>,
         \<lparr>subject_id = ''s2'', subject_name = ''Physics'', subject_thumbnail = ''p'',
          subject_sections =
            [\<lparr>section_id = ''x2'', section_name = ''Quiz'', section_type = Quiz,
              section_contents =
                [\<lparr>content_id = ''c3'', content_title = ''t3'', content_url = ''u3'',
                  content_type = Quiz, content_thumbnail = Some ''p''\<rparr>]\<rparr>]\<rparr>],
      batch_createdAt = 0, batch_isActive = True, batch_enrolledStudents = 0\<rparr>"

section \<open>Bulk selection and bulk apply (BatchEditor.tsx)\<close>

text \<open>
  The state of the editor that bulk apply reads and writes, and the notification it
  shows. The \<^verbatim>\<open>Set\<close> of selected content identifiers is modelled by the list of its
  elements in insertion order; its size is the number of distinct elements.
\<close>

datatype toast = ToastError string | ToastSuccess string

record editor_state =
  batchData :: Batch
  selectedContents :: "string list"
  bulkThumbnailUrl :: string
  showBulkThumbnail :: bool

text \<open>
  \<^verbatim>\<open>handleContentSelection(contentId)\<close>: the identifier is removed when selected, added
  otherwise.
\<close>

definition handleContentSelection :: "string \<Rightarrow> editor_state \<Rightarrow> editor_state" where
  "handleContentSelection contentId st =
     st\<lparr>selectedContents :=
          (if contentId \<in> set (selectedContents st)
           then removeAll contentId (selectedContents st)
           else selectedContents st @ [contentId])\<rparr>"

text \<open>
  The recipe of \<^verbatim>\<open>applyBulkThumbnail\<close>: it visits every content of every section of every
  subject of the typed draft and assigns the trimmed URL to the thumbnail of those
  whose identifier is selected.
\<close>

definition bulk_recipe :: "string list \<Rightarrow> string \<Rightarrow> Batch \<Rightarrow> Batch" where
  "bulk_recipe selected thumbnailUrl draft =
     draft\<lparr>batch_subjects :=
       map (\<lambda>subject. subject\<lparr>subject_sections :=
         map (\<lambda>section. section\<lparr>section_contents :=
           map (\<lambda>content.
                  if content_id content \<in> set selected
                  then content\<lparr>content_thumbnail := Some (trim thumbnailUrl)\<rparr>
                  else content)
             (section_contents section)\<rparr>)
           (subject_sections subject)\<rparr>)
         (batch_subjects draft)\<rparr>"

text \<open>
  \<^verbatim>\<open>applyBulkThumbnail()\<close>: the notification shown and the next state.
\<close>

definition applyBulkThumbnail :: "editor_state \<Rightarrow> toast \<times> editor_state" where
  "applyBulkThumbnail st =
     (if trim (bulkThumbnailUrl st) = [] \<or> length (remdups (selectedContents st)) = 0
      then (ToastError ''Please enter a thumbnail URL and select content items'', st)
      else
        (ToastSuccess
           (''Updated '' @ decimal (length (remdups (selectedContents st))) @ '' thumbnails!''),
         st\<lparr>batchData := bulk_recipe (selectedContents st) (bulkThumbnailUrl st) (batchData st),
            selectedContents := [],
            bulkThumbnailUrl := [],
            showBulkThumbnail := False\<rparr>))"

text \<open>
  All contents of a batch, in the order in which the tree is visited.
\<close>

definition all_contents :: "Batch \<Rightarrow> Content list" where
  "all_contents b =
     concat (map (\<lambda>s. concat (map section_contents (subject_sections s))) (batch_subjects b))"

section \<open>Properties of the string operations\<close>



lemma js_whitespace_prefix_free_all:
  "list_all (\<lambda>w. list_all (\<lambda>w'. prefix w w' \<longrightarrow> w = w') js_whitespace) js_whitespace"
  by code_simp

lemma js_whitespace_prefix_free:
  "w \<in> set js_whitespace \<Longrightarrow> w' \<in> set js_whitespace \<Longrightarrow> prefix w w' \<Longrightarrow> w = w'"
  using js_whitespace_prefix_free_all unfolding list_all_iff by blast

lemma find_whitespace_Nil: "find (\<lambda>w. w = []) js_whitespace = None"
  using js_whitespace_nonempty by (auto simp: find_None_iff)

lemma all_whitespace_Nil: "all_whitespace []"
  unfolding all_whitespace_def by (rule exI [of _ "[]"]) simp

lemma all_whitespace_Cons:
  assumes "w \<in> set js_whitespace" and "all_whitespace s"
  shows "all_whitespace (w @ s)"
proof -
  from assms(2) obtain ws where "set ws \<subseteq> set js_whitespace" and "s = concat ws"
    unfolding all_whitespace_def by blast
  with assms(1) have "set (w # ws) \<subseteq> set js_whitespace \<and> w @ s = concat (w # ws)"
    by simp
  then show ?thesis unfolding all_whitespace_def by blast
qed

lemma all_whitespace_snoc:
  assumes "all_whitespace s" and "w \<in> set js_whitespace"
  shows "all_whitespace (s @ w)"
proof -
  from assms(1) obtain ws where "set ws \<subseteq> set js_whitespace" and "s = concat ws"
    unfolding all_whitespace_def by blast
  with assms(2) have "set (ws @ [w]) \<subseteq> set js_whitespace \<and> s @ w = concat (ws @ [w])"
    by simp
  then show ?thesis unfolding all_whitespace_def by blast
qed

lemma all_whitespace_starts:
  assumes "all_whitespace s" and "s \<noteq> []"
  shows "\<exists>w\<in>set js_whitespace. prefix w s"
proof -
  from assms(1) obtain ws where ws: "set ws \<subseteq> set js_whitespace" "s = concat ws"
    unfolding all_whitespace_def by blast
  with assms(2) obtain w ws' where "ws = w # ws'"
    by (cases ws) auto
  with ws have "w \<in> set js_whitespace" and "prefix w s" by auto
  then show ?thesis by blast
qed

lemma trimStart_empty_imp: "trimStart s = [] \<Longrightarrow> all_whitespace s"
proof (induction s rule: trimStart.induct)
  case (1 s)
  show ?case
  proof (cases "find (\<lambda>w. prefix w s) js_whitespace")
    case None
    with "1.prems" have "s = []" by (simp add: trimStart.simps)
    then show ?thesis by (simp add: all_whitespace_Nil)
  next
    case (Some w)
    then have w: "w \<in> set js_whitespace" "prefix w s"
      using find_whitespace_prefix by blast+
    from Some "1.prems" have "trimStart (drop (length w) s) = []"
      by (simp add: trimStart.simps)
    with "1.IH" Some have "all_whitespace (drop (length w) s)" by blast
    with w(1) have "all_whitespace (w @ drop (length w) s)" by (rule all_whitespace_Cons)
    moreover from w(2) have "w @ drop (length w) s = s" by (auto simp: prefix_def)
    ultimately show ?thesis by simp
  qed
qed

lemma trimStart_whitespace_append:
  assumes "w \<in> set js_whitespace"
  shows "trimStart (w @ r) = trimStart r"
proof -
  from assms have "\<not> find (\<lambda>w'. prefix w' (w @ r)) js_whitespace = None"
    by (auto simp: find_None_iff)
  then obtain w' where f: "find (\<lambda>w'. prefix w' (w @ r)) js_whitespace = Some w'" by blast
  then have w': "w' \<in> set js_whitespace" "prefix w' (w @ r)"
    using find_whitespace_prefix by blast+
  have "prefix w (w @ r)" by simp
  from this w'(2) have "prefix w w' \<or> prefix w' w" by (rule prefix_same_cases)
  with assms w'(1) have "w' = w" using js_whitespace_prefix_free by blast
  with f show ?thesis by (subst trimStart.simps) simp
qed

lemma trimStart_all_whitespace: "all_whitespace s \<Longrightarrow> trimStart s = []"
proof -
  have "set ws \<subseteq> set js_whitespace \<Longrightarrow> trimStart (concat ws) = []" for ws
  proof (induction ws)
    case Nil
    show ?case by (subst trimStart.simps) (simp add: find_whitespace_Nil)
  next
    case (Cons w ws)
    then show ?case by (simp add: trimStart_whitespace_append)
  qed
  then show "all_whitespace s \<Longrightarrow> trimStart s = []"
    unfolding all_whitespace_def by blast
qed

lemma trimStart_no_whitespace:
  "find (\<lambda>w. prefix w (trimStart s)) js_whitespace = None"
proof (induction s rule: trimStart.induct)
  case (1 s)
  show ?case
  proof (cases "find (\<lambda>w. prefix w s) js_whitespace")
    case None
    then show ?thesis by (subst trimStart.simps) simp
  next
    case (Some w)
    with "1.IH" show ?thesis by (subst trimStart.simps) simp
  qed
qed

lemma trimEnd_empty_imp: "trimEnd s = [] \<Longrightarrow> all_whitespace s"
proof (induction s rule: trimEnd.induct)
  case (1 s)
  show ?case
  proof (cases "find (\<lambda>w. suffix w s) js_whitespace")
    case None
    with "1.prems" have "s = []" by (simp add: trimEnd.simps)
    then show ?thesis by (simp add: all_whitespace_Nil)
  next
    case (Some w)
    then have w: "w \<in> set js_whitespace" "suffix w s"
      using find_whitespace_suffix by blast+
    from Some "1.prems" have "trimEnd (take (length s - length w) s) = []"
      by (simp add: trimEnd.simps)
    with "1.IH" Some have "all_whitespace (take (length s - length w) s)" by blast
    from this w(1) have "all_whitespace (take (length s - length w) s @ w)"
      by (rule all_whitespace_snoc)
    moreover from w(2) have "take (length s - length w) s @ w = s" by (auto simp: suffix_def)
    ultimately show ?thesis by simp
  qed
qed

lemma trim_empty_iff: "trim s = [] \<longleftrightarrow> all_whitespace s"
proof
  assume "trim s = []"
  then have ws: "all_whitespace (trimStart s)"
    unfolding trim_def by (rule trimEnd_empty_imp)
  have "trimStart s = []"
  proof (rule ccontr)
    assume "trimStart s \<noteq> []"
    with ws obtain w where "w \<in> set js_whitespace" "prefix w (trimStart s)"
      using all_whitespace_starts by blast
    then show False using trimStart_no_whitespace [of s] by (auto simp: find_None_iff)
  qed
  then show "all_whitespace s" by (rule trimStart_empty_imp)
next
  assume "all_whitespace s"
  then have "trimStart s = []" by (rule trimStart_all_whitespace)
  then show "trim s = []"
    unfolding trim_def by (subst trimEnd.simps) (simp add: find_whitespace_Nil)
qed

lemma all_whitespace_hd:
  "all_whitespace s \<Longrightarrow> s \<noteq> [] \<Longrightarrow> hd s \<in> hd ` set js_whitespace"
proof -
  assume "all_whitespace s" "s \<noteq> []"
  then obtain w where w: "w \<in> set js_whitespace" "prefix w s"
    using all_whitespace_starts by blast
  then have "w \<noteq> []" by (simp add: js_whitespace_nonempty)
  with w(2) have "hd s = hd w" by (auto simp: prefix_def)
  with w(1) show ?thesis by blast
qed


section \<open>Properties of the section classifier\<close>

text \<open>
  Claim C9. The classifier is a total function of the name alone. It agrees, on every
  name, with the first-match search of the lower-cased name through the ordered
  keyword list video, notes, quiz, dpp, acp, wpp, otp, assignment, and gives video when
  no keyword occurs. On the five names listed by the specification it gives
  assignment, quiz, notes, video and video.
\<close>

theorem getSectionTypeFromName_first_match:
  "getSectionTypeFromName name = classify_spec name
   \<and> getSectionTypeFromName ''Week1_DPP'' = Assignment
   \<and> getSectionTypeFromName ''Quiz_Final'' = Quiz
   \<and> getSectionTypeFromName ''Intro_Notes'' = Notes
   \<and> getSectionTypeFromName ''Lecture_01'' = Video
   \<and> getSectionTypeFromName ''Random123'' = Video"
proof -
  have gen: "getSectionTypeFromName name = classify_spec name"
    by (simp add: getSectionTypeFromName_def classify_spec_def keyword_list_def Let_def)
  have e1: "getSectionTypeFromName ''Week1_DPP'' = Assignment"
    by (simp add: getSectionTypeFromName_def toLowerCase_def toLowerCase_char_def)
  have e2: "getSectionTypeFromName ''Quiz_Final'' = Quiz"
    by (simp add: getSectionTypeFromName_def toLowerCase_def toLowerCase_char_def)
  have e3: "getSectionTypeFromName ''Intro_Notes'' = Notes"
    by (simp add: getSectionTypeFromName_def toLowerCase_def toLowerCase_char_def)
  have e4: "getSectionTypeFromName ''Lecture_01'' = Video"
    by (simp add: getSectionTypeFromName_def toLowerCase_def toLowerCase_char_def)
  have e5: "getSectionTypeFromName ''Random123'' = Video"
    by (simp add: getSectionTypeFromName_def toLowerCase_def toLowerCase_char_def)
  from gen e1 e2 e3 e4 e5 show ?thesis by blast
qed

section \<open>Properties of URL normalization\<close>

lemma h_not_whitespace: "CHR ''h'' \<notin> hd ` set js_whitespace"
  by (simp add: js_whitespace_def)

lemma prefixed_not_whitespace:
  "\<not> all_whitespace (livePrefix @ x)" "\<not> all_whitespace (recPrefix @ x)"
  using all_whitespace_hd [of "livePrefix @ x"] all_whitespace_hd [of "recPrefix @ x"]
    h_not_whitespace
  by (auto simp: livePrefix_def recPrefix_def)

lemma getVideoPlayerURL_prefixed:
  "getVideoPlayerURL (livePrefix @ x) m = Inr (livePrefix @ x)"
  "getVideoPlayerURL (recPrefix @ x) m = Inr (recPrefix @ x)"
proof -
  have "livePrefix @ x \<noteq> []" "recPrefix @ x \<noteq> []"
    by (simp_all add: livePrefix_def recPrefix_def)
  then show "getVideoPlayerURL (livePrefix @ x) m = Inr (livePrefix @ x)"
    "getVideoPlayerURL (recPrefix @ x) m = Inr (recPrefix @ x)"
    by (simp_all add: getVideoPlayerURL_def trim_empty_iff prefixed_not_whitespace)
qed

text \<open>
  Claim C7, as stated, fails on a raw value that holds a lone surrogate (here \<open>a\<close>,
  U+D800, \<open>b\<close>): it is neither blank nor prefixed, and the function raises \<^verbatim>\<open>URIError\<close>
  instead of returning a prefixed value.
\<close>

theorem getVideoPlayerURL_lone_surrogate:
  "trim [CHR ''a'', CHR 0xED, CHR 0xA0, CHR 0x80, CHR ''b''] \<noteq> []
   \<and> \<not> prefix livePrefix [CHR ''a'', CHR 0xED, CHR 0xA0, CHR 0x80, CHR ''b'']
   \<and> \<not> prefix recPrefix [CHR ''a'', CHR 0xED, CHR 0xA0, CHR 0x80, CHR ''b'']
   \<and> getVideoPlayerURL [CHR ''a'', CHR 0xED, CHR 0xA0, CHR 0x80, CHR ''b''] False = Inl URIError
   \<and> getVideoPlayerURL [CHR ''a'', CHR 0xED, CHR 0xA0, CHR 0x80, CHR ''b''] True = Inl URIError"
  by code_simp

text \<open>
  Claim C7, amended. For every raw value and every flag: an empty or all-whitespace raw
  value gives \<open>#\<close>; a raw value that starts with the live or the recorded prefix is
  returned unchanged; every other raw value without a lone surrogate gives the prefix
  chosen by the flag followed by the percent-encoded raw value; every other raw value
  with a lone surrogate raises \<^verbatim>\<open>URIError\<close>.
\<close>

theorem getVideoPlayerURL_cases:
  "(raw = [] \<or> all_whitespace raw \<longrightarrow> getVideoPlayerURL raw isLive = Inr ''#'')
   \<and> (prefix livePrefix raw \<or> prefix recPrefix raw \<longrightarrow> getVideoPlayerURL raw isLive = Inr raw)
   \<and> (\<not> (raw = [] \<or> all_whitespace raw) \<and> \<not> prefix livePrefix raw \<and> \<not> prefix recPrefix raw
        \<and> \<not> has_lone_surrogate raw
        \<longrightarrow> getVideoPlayerURL raw isLive
            = Inr ((if isLive then livePrefix else recPrefix) @ percent_encode raw))
   \<and> (\<not> (raw = [] \<or> all_whitespace raw) \<and> \<not> prefix livePrefix raw \<and> \<not> prefix recPrefix raw
        \<and> has_lone_surrogate raw
        \<longrightarrow> getVideoPlayerURL raw isLive = Inl URIError)"
proof (intro conjI impI)
  assume "raw = [] \<or> all_whitespace raw"
  then show "getVideoPlayerURL raw isLive = Inr ''#''"
    by (auto simp: getVideoPlayerURL_def trim_empty_iff)
next
  assume "prefix livePrefix raw \<or> prefix recPrefix raw"
  then show "getVideoPlayerURL raw isLive = Inr raw"
    by (auto simp: prefix_def getVideoPlayerURL_prefixed)
next
  assume "\<not> (raw = [] \<or> all_whitespace raw) \<and> \<not> prefix livePrefix raw \<and> \<not> prefix recPrefix raw
        \<and> \<not> has_lone_surrogate raw"
  then show "getVideoPlayerURL raw isLive
      = Inr ((if isLive then livePrefix else recPrefix) @ percent_encode raw)"
    by (simp add: getVideoPlayerURL_def encodeURIComponent_def trim_empty_iff)
next
  assume "\<not> (raw = [] \<or> all_whitespace raw) \<and> \<not> prefix livePrefix raw \<and> \<not> prefix recPrefix raw
        \<and> has_lone_surrogate raw"
  then show "getVideoPlayerURL raw isLive = Inl URIError"
    by (simp add: getVideoPlayerURL_def encodeURIComponent_def trim_empty_iff)
qed

theorem getVideoPlayerURL_cases_witness:
  "getVideoPlayerURL ''   '' True = Inr ''#''
   \<and> getVideoPlayerURL (recPrefix @ ''a.m3u8'') True = Inr (recPrefix @ ''a.m3u8'')
   \<and> getVideoPlayerURL ''https://cdn/a b.mp4'' True
       = Inr (livePrefix @ ''https%3A%2F%2Fcdn%2Fa%20b.mp4'')
   \<and> getVideoPlayerURL [CHR ''a'', CHR 0xED, CHR 0xA0, CHR 0x80, CHR ''b''] True = Inl URIError"
proof -
  let ?s = "[CHR ''a'', CHR 0xED, CHR 0xA0, CHR 0x80, CHR ''b'']"
  have ws: "all_whitespace ''   ''"
    unfolding trim_empty_iff [symmetric] by code_simp
  have p: "prefix recPrefix (recPrefix @ ''a.m3u8'')" by simp
  have nws: "\<not> all_whitespace ''https://cdn/a b.mp4''"
    unfolding trim_empty_iff [symmetric] by code_simp
  have np: "\<not> prefix livePrefix ''https://cdn/a b.mp4''" "\<not> prefix recPrefix ''https://cdn/a b.mp4''"
    by (simp_all add: livePrefix_def recPrefix_def)
  have ns: "\<not> has_lone_surrogate ''https://cdn/a b.mp4''" by code_simp
  have enc: "percent_encode ''https://cdn/a b.mp4'' = ''https%3A%2F%2Fcdn%2Fa%20b.mp4''"
    by code_simp
  have snws: "\<not> all_whitespace ?s"
    unfolding trim_empty_iff [symmetric] by code_simp
  have snp: "\<not> prefix livePrefix ?s" "\<not> prefix recPrefix ?s"
    by (simp_all add: livePrefix_def recPrefix_def)
  have ss: "has_lone_surrogate ?s" by code_simp
  have a: "getVideoPlayerURL ''   '' True = Inr ''#''"
    using ws getVideoPlayerURL_cases [of "''   ''" True] by blast
  have b: "getVideoPlayerURL (recPrefix @ ''a.m3u8'') True = Inr (recPrefix @ ''a.m3u8'')"
    using p getVideoPlayerURL_cases [of "recPrefix @ ''a.m3u8''" True] by blast
  have c: "getVideoPlayerURL ''https://cdn/a b.mp4'' True
       = Inr (livePrefix @ ''https%3A%2F%2Fcdn%2Fa%20b.mp4'')"
    using nws np ns enc getVideoPlayerURL_cases [of "''https://cdn/a b.mp4''" True] by simp
  have d: "getVideoPlayerURL ?s True = Inl URIError"
    using snws snp ss getVideoPlayerURL_cases [of ?s True] by simp
  from a b c d show ?thesis by blast
qed

text \<open>
  Claim C4, as stated, fails at the empty string: its normalization is \<open>#\<close>, and the
  normalization of \<open>#\<close> is the recorded prefix followed by \<open>%23\<close>.
\<close>

theorem getVideoPlayerURL_blank_not_idempotent:
  "getVideoPlayerURL [] False = Inr ''#''
   \<and> getVideoPlayerURL ''#'' False \<noteq> Inr ''#''
   \<and> getVideoPlayerURL ''#'' False = Inr (recPrefix @ ''%23'')"
  by code_simp

text \<open>
  Claim C4, amended. Normalization is idempotent on every raw value that is neither
  empty nor all whitespace, for every flag: normalizing the result of a normalization
  gives that result again (and a normalization that raises, raises). On an empty or
  all-whitespace raw value the first normalization gives \<open>#\<close> and the second gives the
  prefix chosen by the flag followed by \<open>%23\<close>.
\<close>

theorem getVideoPlayerURL_idempotent_nonblank:
  "(\<not> (x = [] \<or> all_whitespace x)
      \<longrightarrow> (case getVideoPlayerURL x m of Inl e \<Rightarrow> Inl e | Inr y \<Rightarrow> getVideoPlayerURL y m)
          = getVideoPlayerURL x m)
   \<and> (x = [] \<or> all_whitespace x
      \<longrightarrow> getVideoPlayerURL x m = Inr ''#''
        \<and> (case getVideoPlayerURL x m of Inl e \<Rightarrow> Inl e | Inr y \<Rightarrow> getVideoPlayerURL y m)
            = Inr ((if m then livePrefix else recPrefix) @ ''%23''))"
proof (intro conjI impI)
  assume nb: "\<not> (x = [] \<or> all_whitespace x)"
  show "(case getVideoPlayerURL x m of Inl e \<Rightarrow> Inl e | Inr y \<Rightarrow> getVideoPlayerURL y m)
      = getVideoPlayerURL x m"
  proof (cases "prefix livePrefix x \<or> prefix recPrefix x")
    case True
    with nb have "getVideoPlayerURL x m = Inr x"
      by (simp add: getVideoPlayerURL_def trim_empty_iff)
    then show ?thesis by simp
  next
    case False
    show ?thesis
    proof (cases "has_lone_surrogate x")
      case True
      with nb False have "getVideoPlayerURL x m = Inl URIError"
        by (simp add: getVideoPlayerURL_def encodeURIComponent_def trim_empty_iff)
      then show ?thesis by simp
    next
      case ns: False
      with nb False have "getVideoPlayerURL x m
          = Inr ((if m then livePrefix else recPrefix) @ percent_encode x)"
        by (simp add: getVideoPlayerURL_def encodeURIComponent_def trim_empty_iff)
      then show ?thesis by (simp add: getVideoPlayerURL_prefixed)
    qed
  qed
next
  assume b: "x = [] \<or> all_whitespace x"
  then show "getVideoPlayerURL x m = Inr ''#''"
    by (auto simp: getVideoPlayerURL_def trim_empty_iff)
next
  assume b: "x = [] \<or> all_whitespace x"
  then have "getVideoPlayerURL x m = Inr ''#''"
    by (auto simp: getVideoPlayerURL_def trim_empty_iff)
  moreover have "getVideoPlayerURL ''#'' True = Inr (livePrefix @ ''%23'')"
    "getVideoPlayerURL ''#'' False = Inr (recPrefix @ ''%23'')"
    by code_simp+
  ultimately show "(case getVideoPlayerURL x m of Inl e \<Rightarrow> Inl e | Inr y \<Rightarrow> getVideoPlayerURL y m)
      = Inr ((if m then livePrefix else recPrefix) @ ''%23'')"
    by simp
qed

theorem getVideoPlayerURL_idempotent_nonblank_witness:
  "getVideoPlayerURL ''https://cdn/a b.mp4'' False
     = Inr (recPrefix @ ''https%3A%2F%2Fcdn%2Fa%20b.mp4'')
   \<and> getVideoPlayerURL (recPrefix @ ''https%3A%2F%2Fcdn%2Fa%20b.mp4'') False
     = Inr (recPrefix @ ''https%3A%2F%2Fcdn%2Fa%20b.mp4'')
   \<and> getVideoPlayerURL '' '' True = Inr ''#''
   \<and> getVideoPlayerURL ''#'' True = Inr (livePrefix @ ''%23'')"
proof -
  have nws: "\<not> (''https://cdn/a b.mp4'' = [] \<or> all_whitespace ''https://cdn/a b.mp4'')"
    unfolding trim_empty_iff [symmetric] by code_simp
  have ws: "'' '' = [] \<or> all_whitespace '' ''"
    unfolding trim_empty_iff [symmetric] by code_simp
  have v: "getVideoPlayerURL ''https://cdn/a b.mp4'' False
     = Inr (recPrefix @ ''https%3A%2F%2Fcdn%2Fa%20b.mp4'')"
    by code_simp
  note t1 = getVideoPlayerURL_idempotent_nonblank [of "''https://cdn/a b.mp4''" False]
  note t2 = getVideoPlayerURL_idempotent_nonblank [of "'' ''" True, unfolded if_True]
  from nws t1 v have a: "getVideoPlayerURL (recPrefix @ ''https%3A%2F%2Fcdn%2Fa%20b.mp4'') False
     = Inr (recPrefix @ ''https%3A%2F%2Fcdn%2Fa%20b.mp4'')"
    by simp
  from ws t2 have b: "getVideoPlayerURL '' '' True = Inr ''#''"
    and c: "(case getVideoPlayerURL '' '' True of Inl e \<Rightarrow> Inl e | Inr y \<Rightarrow> getVideoPlayerURL y True)
            = Inr (livePrefix @ ''%23'')"
    by blast+
  from b c have d: "getVideoPlayerURL ''#'' True = Inr (livePrefix @ ''%23'')" by simp
  from v a b d show ?thesis by blast
qed

section \<open>Properties of the row parser\<close>



lemma extract_video_url_other:
  "\<not> str_includes u ''eduverseplay?videoUrl='' \<Longrightarrow> extract_video_url u = Inr u"
  by (simp add: extract_video_url_def)


















text \<open>
  Claim C10. The unwrapping fires only on a link that contains the literal
  \<open>eduverseplay?videoUrl=\<close>: every other link is returned unchanged, among them a link
  with another wrapper path and a link where \<open>videoUrl\<close> is not the first parameter;
  a link with the literal and a decodable value is unwrapped.
\<close>

theorem extract_video_url_literal_only:
  "(\<not> str_includes u ''eduverseplay?videoUrl='' \<longrightarrow> extract_video_url u = Inr u)
   \<and> extract_video_url ''https://x/eduverseplay?videoUrl=https%3A%2F%2Fcdn%2Fa.mp4''
       = Inr ''https://cdn/a.mp4''
   \<and> parse_rows
        [[CellString ''h1'', CellString ''h2''],
         [CellString ''https://x/player?videoUrl=https%3A%2F%2Fcdn%2Fa.mp4'', CellString ''A''],
         [CellString ''https://x/eduverseplay?t=1&videoUrl=https%3A%2F%2Fcdn%2Fa.mp4'', CellString ''B'']]
       = Inr [\<lparr>xlsx_url = ''https://x/player?videoUrl=https%3A%2F%2Fcdn%2Fa.mp4'', xlsx_title = ''A''\<rparr>,
              \<lparr>xlsx_url = ''https://x/eduverseplay?t=1&videoUrl=https%3A%2F%2Fcdn%2Fa.mp4'',
                xlsx_title = ''B''\<rparr>]"
proof (intro conjI impI)
  assume "\<not> str_includes u ''eduverseplay?videoUrl=''"
  then show "extract_video_url u = Inr u" by (rule extract_video_url_other)
next
  show "extract_video_url ''https://x/eduverseplay?videoUrl=https%3A%2F%2Fcdn%2Fa.mp4''
       = Inr ''https://cdn/a.mp4''"
    by code_simp
next
  show "parse_rows
        [[CellString ''h1'', CellString ''h2''],
         [CellString ''https://x/player?videoUrl=https%3A%2F%2Fcdn%2Fa.mp4'', CellString ''A''],
         [CellString ''https://x/eduverseplay?t=1&videoUrl=https%3A%2F%2Fcdn%2Fa.mp4'', CellString ''B'']]
       = Inr [\<lparr>xlsx_url = ''https://x/player?videoUrl=https%3A%2F%2Fcdn%2Fa.mp4'', xlsx_title = ''A''\<rparr>,
              \<lparr>xlsx_url = ''https://x/eduverseplay?t=1&videoUrl=https%3A%2F%2Fcdn%2Fa.mp4'',
                xlsx_title = ''B''\<rparr>]"
    by code_simp
qed

theorem extract_video_url_literal_only_witness:
  "extract_video_url ''https://x/player?videoUrl=https%3A%2F%2Fcdn%2Fa.mp4''
     = Inr ''https://x/player?videoUrl=https%3A%2F%2Fcdn%2Fa.mp4''
   \<and> extract_video_url ''https://x/eduverseplay?t=1&videoUrl=https%3A%2F%2Fcdn%2Fa.mp4''
     = Inr ''https://x/eduverseplay?t=1&videoUrl=https%3A%2F%2Fcdn%2Fa.mp4''"
proof -
  have n: "\<not> str_includes ''https://x/player?videoUrl=https%3A%2F%2Fcdn%2Fa.mp4'' ''eduverseplay?videoUrl=''"
    "\<not> str_includes ''https://x/eduverseplay?t=1&videoUrl=https%3A%2F%2Fcdn%2Fa.mp4'' ''eduverseplay?videoUrl=''"
    by code_simp+
  from n
    extract_video_url_literal_only [of "''https://x/player?videoUrl=https%3A%2F%2Fcdn%2Fa.mp4''"]
    extract_video_url_literal_only [of "''https://x/eduverseplay?t=1&videoUrl=https%3A%2F%2Fcdn%2Fa.mp4''"]
  show ?thesis by blast
qed

section \<open>Properties of the folder aggregator\<close>

text \<open>
  A file whose path has fewer than three segments, or whose name does not end in
  \<open>.xlsx\<close>, changes nothing. A file that passes and parses is filed under segment 0,
  segment 1 and the derived section name, and its section replaces whatever was there:
  after the last file of a list, the entry at its key is that file's section alone.
  The derived name is the name minus the extension whenever \<open>.xlsx\<close> does not occur
  in the rest of the name.
\<close>

lemma process_file_skipped:
  "\<not> (3 \<le> length (split_on (CHR ''/'') (file_webkitRelativePath f)) \<and> suffix ''.xlsx'' (file_name f))
   \<Longrightarrow> process_file batches f = batches"
  by (auto simp: process_file_def Let_def)

lemma map_of_ensure_key:
  "map_of (ensure_key k v obj) k = Some (case map_of obj k of None \<Rightarrow> v | Some w \<Rightarrow> w)"
  by (auto simp: ensure_key_def update_conv')

lemma process_file_section:
  assumes "3 \<le> length (split_on (CHR ''/'') (file_webkitRelativePath f))"
    and "suffix ''.xlsx'' (file_name f)"
    and "parseXLSXFile f = Inr contents"
  shows "\<exists>be se.
           map_of (process_file batches f) (split_on (CHR ''/'') (file_webkitRelativePath f) ! 0) = Some be
         \<and> map_of (be_subjects be) (split_on (CHR ''/'') (file_webkitRelativePath f) ! 1) = Some se
         \<and> map_of (se_sections se) (replace_first (file_name f) ''.xlsx'' [])
             = Some \<lparr>ps_name = replace_first (file_name f) ''.xlsx'' [],
                     ps_type = getSectionTypeFromName (replace_first (file_name f) ''.xlsx'' []),
                     ps_contents = contents\<rparr>"
  using assms
  by (simp add: process_file_def Let_def map_of_map_entry map_of_ensure_key update_conv')

lemma processFolderStructure_snoc:
  "processFolderStructure (fs @ [f]) = process_file (processFolderStructure fs) f"
  by (simp add: processFolderStructure_def)

lemma processFolderStructure_last_write_wins:
  assumes "3 \<le> length (split_on (CHR ''/'') (file_webkitRelativePath f))"
    and "suffix ''.xlsx'' (file_name f)"
    and "parseXLSXFile f = Inr contents"
  shows "\<exists>be se.
           map_of (processFolderStructure (fs @ [f]))
             (split_on (CHR ''/'') (file_webkitRelativePath f) ! 0) = Some be
         \<and> map_of (be_subjects be) (split_on (CHR ''/'') (file_webkitRelativePath f) ! 1) = Some se
         \<and> map_of (se_sections se) (replace_first (file_name f) ''.xlsx'' [])
             = Some \<lparr>ps_name = replace_first (file_name f) ''.xlsx'' [],
                     ps_type = getSectionTypeFromName (replace_first (file_name f) ''.xlsx'' []),
                     ps_contents = contents\<rparr>"
  unfolding processFolderStructure_snoc using assms by (rule process_file_section)

lemma replace_first_extension:
  "\<not> str_includes name ''.xlsx'' \<Longrightarrow> replace_first (name @ ''.xlsx'') ''.xlsx'' [] = name"
proof (induction name)
  case Nil
  then show ?case by simp
next
  case (Cons c cs)
  then have n: "\<not> prefix ''.xlsx'' (c # cs)" and i: "\<not> str_includes cs ''.xlsx''"
    by simp_all
  from n have np: "\<not> prefix ''.xlsx'' (c # cs @ ''.xlsx'')"
    using prefix_append [of "''.xlsx''" "c # cs" "''.xlsx''"]
    by (auto simp: Cons_eq_append_conv)
  have "replace_first ((c # cs) @ ''.xlsx'') ''.xlsx'' []
      = c # replace_first (cs @ ''.xlsx'') ''.xlsx'' []"
    by (simp only: append_Cons replace_first.simps np if_False)
  with Cons.IH [OF i] show ?case by (simp only:)
qed

text \<open>
  Claim C8 says that the section of a file is named by the file name minus its
  extension. The code removes the first occurrence of \<open>.xlsx\<close> in the name, which is
  the extension only when \<open>.xlsx\<close> does not occur earlier: the file \<open>x.xlsxy.xlsx\<close>
  (minus its extension: \<open>x.xlsxy\<close>) is filed under \<open>xy.xlsx\<close>. Two files of one subject
  whose names minus the extension differ, \<open>x.xlsxy\<close> and \<open>xy.xlsx\<close>, then fall on the
  same section, and the first one is lost.
\<close>

theorem processFolderStructure_first_occurrence:
  "replace_first ''x.xlsxy.xlsx'' ''.xlsx'' [] = ''xy.xlsx''
   \<and> processFolderStructure
     [\<lparr>file_name = ''x.xlsxy.xlsx'', file_webkitRelativePath = ''BatchA/Math/x.xlsxy.xlsx'',
       file_data = Sheet [[CellString ''h1'', CellString ''h2''], [CellString ''u1'', CellString ''t1'']]\<rparr>,
      \<lparr>file_name = ''xy.xlsx.xlsx'', file_webkitRelativePath = ''BatchA/Math/xy.xlsx.xlsx'',
       file_data = Sheet [[CellString ''h1'', CellString ''h2''], [CellString ''u2'', CellString ''t2'']]\<rparr>]
   = [(''BatchA'',
       \<lparr>be_name = ''BatchA'',
        be_subjects =
          [(''Math'',
            \<lparr>se_name = ''Math'',
             se_sections =
               [(''xy.xlsx'',
                 \<lparr>ps_name = ''xy.xlsx'', ps_type = Video,
                  ps_contents = [\<lparr>xlsx_url = ''u2'', xlsx_title = ''t2''\<rparr>]\<rparr>)]\<rparr>)]\<rparr>)]"
  by code_simp

section \<open>Properties of the path-addressed update\<close>

lemma map_of_insert:
  "map_of (A @ B) k = None \<Longrightarrow> map_of (A @ (k, v) # B) = (map_of (A @ B))(k \<mapsto> v)"
  by (induction A) (auto simp: fun_upd_twist split: if_splits)

lemma map_of_own_update: "map_of (own_update k v kvs) = (map_of kvs)(k \<mapsto> v)"
proof (cases "map_of kvs k")
  case (Some old)
  then show ?thesis by (simp add: own_update_def update_conv')
next
  case None
  show ?thesis
  proof (cases "index_key k")
    case n: None
    from None have "map_of (kvs @ [(k, v)]) = (map_of kvs)(k \<mapsto> v)"
      using map_of_insert [of kvs "[]" k v] by simp
    with None n show ?thesis by (simp add: own_update_def)
  next
    case (Some n)
    from None have "map_of (takeWhile (before_index n) kvs @ (k, v) # dropWhile (before_index n) kvs)
        = (map_of kvs)(k \<mapsto> v)"
      using map_of_insert [of "takeWhile (before_index n) kvs" "dropWhile (before_index n) kvs" k v]
      by simp
    with None Some show ?thesis by (simp add: own_update_def)
  qed
qed

lemma own_update_own:
  "map_of kvs k = Some old \<Longrightarrow> own_update k v kvs = AList.update k v kvs"
  by (simp add: own_update_def)

lemma own_update_new:
  "map_of kvs k = None \<Longrightarrow> index_key k = None \<Longrightarrow> own_update k v kvs = kvs @ [(k, v)]"
  by (simp add: own_update_def)

lemma index_key_fields:
  "index_key ''thumbnail'' = None" "index_key ''contents'' = None"
  "index_key ''sections'' = None" "index_key ''subjects'' = None"
  by code_simp+

lemma step_get_prop: "step t s = Some c \<Longrightarrow> get_prop t s = Inr c"
  by (induction t s rule: step.induct) (auto split: if_splits)

lemma set_prop_Key:
  "map_of kvs k \<noteq> None \<or> k \<noteq> ''__proto__'' \<Longrightarrow>
   set_prop (Obj kvs) (Key k) v = Inr (Obj (own_update k v kvs))"
  by auto

lemma step_update_Key:
  "step (Obj (own_update k v kvs)) r = (if r = Key k then Some v else step (Obj kvs) r)"
  by (cases r) (auto simp: map_of_own_update)

lemma set_prop_Idx:
  "set_prop (Arr xs) (Idx n) v =
     Inr (Arr (if n < length xs then xs[n := Some v]
               else xs @ replicate (n - length xs) None @ [Some v]))"
  by simp

lemma step_update_Idx:
  "step (Arr (if n < length xs then xs[n := Some v]
              else xs @ replicate (n - length xs) None @ [Some v])) r
   = (if r = Idx n then Some v else step (Arr xs) r)"
proof (cases r)
  case (Key k)
  then show ?thesis by simp
next
  case (Idx m)
  show ?thesis
  proof (cases "n < length xs")
    case True
    with Idx show ?thesis by (auto simp: nth_list_update)
  next
    case False
    with Idx show ?thesis
      by (auto simp: nth_append nth_Cons split: nat.splits)
  qed
qed

lemma set_prop_step:
  assumes "set_prop p s v = Inr p'" and "step p s' \<noteq> None \<or> s' = s"
    and "(\<exists>kvs k. p = Obj kvs \<and> s = Key k) \<or> (\<exists>xs n. p = Arr xs \<and> s = Idx n)"
  shows "step p' r = (if r = s then Some v else step p r)"
proof -
  from assms(3) show ?thesis
  proof
    assume "\<exists>kvs k. p = Obj kvs \<and> s = Key k"
    then obtain kvs k where p: "p = Obj kvs" "s = Key k" by blast
    with assms(1) have "p' = Obj (own_update k v kvs)" by (auto split: if_splits)
    with p show ?thesis by (simp only: step_update_Key)
  next
    assume "\<exists>xs n. p = Arr xs \<and> s = Idx n"
    then obtain xs n where p: "p = Arr xs" "s = Idx n" by blast
    with assms(1) have "p' = Arr (if n < length xs then xs[n := Some v]
              else xs @ replicate (n - length xs) None @ [Some v])"
      by (simp only: set_prop_Idx sum.inject)
    with p show ?thesis by (simp only: step_update_Idx)
  qed
qed

lemma step_typed:
  "step p s = Some c \<Longrightarrow>
     (\<exists>kvs k. p = Obj kvs \<and> s = Key k) \<or> (\<exists>xs n. p = Arr xs \<and> s = Idx n)"
  by (induction p s rule: step.induct) auto

lemma assign_path_Cons:
  "ss \<noteq> [] \<Longrightarrow>
   assign_path t (s # ss) v =
     (case get_prop t s of
        Inl e \<Rightarrow> Inl e
      | Inr c \<Rightarrow> (case assign_path c ss v of Inl e \<Rightarrow> Inl e | Inr c' \<Rightarrow> set_prop t s c'))"
  by (cases ss) auto

lemma lookup_append:
  "lookup t (Q @ R) = (case lookup t Q of None \<Rightarrow> None | Some p \<Rightarrow> lookup p R)"
  by (induction Q arbitrary: t) (auto split: option.splits)

lemma assign_path_frame:
  assumes "lookup t Q = Some p" and "set_prop p s v = Inr p'"
  shows "\<exists>t'. assign_path t (Q @ [s]) v = Inr t' \<and> lookup t' Q = Some p'
           \<and> (\<forall>R. \<not> prefix Q R \<and> \<not> prefix R Q \<longrightarrow> lookup t' R = lookup t R)"
  using assms
proof (induction Q arbitrary: t)
  case Nil
  then show ?case by simp
next
  case (Cons q Q)
  from Cons.prems(1) obtain c where c: "step t q = Some c" "lookup c Q = Some p"
    by (auto split: option.splits)
  from Cons.IH [OF c(2) Cons.prems(2)] obtain c' where
    c': "assign_path c (Q @ [s]) v = Inr c'" "lookup c' Q = Some p'"
    "\<forall>R. \<not> prefix Q R \<and> \<not> prefix R Q \<longrightarrow> lookup c' R = lookup c R"
    by blast
  from c(1) have typed: "(\<exists>kvs k. t = Obj kvs \<and> q = Key k) \<or> (\<exists>xs n. t = Arr xs \<and> q = Idx n)"
    by (rule step_typed)
  with c(1) obtain t' where t': "set_prop t q c' = Inr t'"
    by auto
  have st: "step t' r = (if r = q then Some c' else step t r)" for r
    using t' typed by (intro set_prop_step) auto
  have a: "assign_path t ((q # Q) @ [s]) v = Inr t'"
    using c(1) c'(1) t' by (simp add: assign_path_Cons step_get_prop)
  have l: "lookup t' (q # Q) = Some p'"
    using st c'(2) by simp
  have f: "lookup t' R = lookup t R" if "\<not> prefix (q # Q) R \<and> \<not> prefix R (q # Q)" for R
  proof (cases R)
    case Nil
    with that show ?thesis by simp
  next
    case (Cons r R')
    show ?thesis
    proof (cases "r = q")
      case True
      with that Cons have "\<not> prefix Q R' \<and> \<not> prefix R' Q" by simp
      with c'(3) have "lookup c' R' = lookup c R'" by blast
      with True Cons st c(1) show ?thesis by simp
    next
      case False
      with Cons st show ?thesis by simp
    qed
  qed
  from a l f show ?case by blast
qed


lemma handleNestedChange_plain:
  "\<not> cascade_path P \<Longrightarrow> handleNestedChange t P v = assign_path t P v"
  by (auto simp: handleNestedChange_def cascade_path_def split: sum.splits)

lemma set_prop_typed:
  assumes "(\<exists>kvs k. p = Obj kvs \<and> s = Key k \<and> (map_of kvs k \<noteq> None \<or> k \<noteq> ''__proto__''))
           \<or> (\<exists>xs n. p = Arr xs \<and> s = Idx n)"
  shows "\<exists>p'. set_prop p s v = Inr p' \<and> (\<forall>r. step p' r = (if r = s then Some v else step p r))"
proof -
  from assms obtain p' where p': "set_prop p s v = Inr p'"
    by auto
  then have "step p' r = (if r = s then Some v else step p r)" for r
    using assms by (intro set_prop_step) auto
  with p' show ?thesis by blast
qed

lemma assign_path_update:
  assumes "lookup t Q = Some p"
    and "(\<exists>kvs k. p = Obj kvs \<and> s = Key k \<and> (map_of kvs k \<noteq> None \<or> k \<noteq> ''__proto__''))
         \<or> (\<exists>xs n. p = Arr xs \<and> s = Idx n)"
  shows "\<exists>t'. assign_path t (Q @ [s]) v = Inr t' \<and> lookup t' (Q @ [s]) = Some v
           \<and> (\<forall>R. \<not> prefix R (Q @ [s]) \<and> \<not> prefix (Q @ [s]) R \<longrightarrow> lookup t' R = lookup t R)"
proof -
  from set_prop_typed [OF assms(2)] obtain p' where
    p': "set_prop p s v = Inr p'" "\<forall>r. step p' r = (if r = s then Some v else step p r)"
    by blast
  from assign_path_frame [OF assms(1) p'(1)] obtain t' where
    t': "assign_path t (Q @ [s]) v = Inr t'" "lookup t' Q = Some p'"
    "\<forall>R. \<not> prefix Q R \<and> \<not> prefix R Q \<longrightarrow> lookup t' R = lookup t R"
    by blast
  have l: "lookup t' (Q @ [s]) = Some v"
    using t'(2) p'(2) by (simp add: lookup_append)
  have f: "lookup t' R = lookup t R" if R: "\<not> prefix R (Q @ [s]) \<and> \<not> prefix (Q @ [s]) R" for R
  proof (cases "prefix Q R")
    case False
    moreover from R have "\<not> prefix R Q" by (auto simp: prefix_def)
    ultimately show ?thesis using t'(3) by blast
  next
    case True
    then obtain R' where R': "R = Q @ R'" by (auto simp: prefix_def)
    with R obtain r R'' where r: "R' = r # R''" "r \<noteq> s"
      by (cases R') (auto simp: prefix_def)
    with R' t'(2) p'(2) assms(1) show ?thesis by (simp add: lookup_append)
  qed
  from t'(1) l f show ?thesis by blast
qed


lemma assign_path_missing:
  assumes "lookup t Q = Some p" and "get_prop p s = Inr Undefined" and "R \<noteq> []"
  shows "assign_path t (Q @ s # R) v = Inl TypeError"
  using assms(1)
proof (induction Q arbitrary: t)
  case Nil
  from assms(3) obtain r R' where "R = r # R'" by (cases R) auto
  with Nil assms(2) show ?case by (cases R') auto
next
  case (Cons q Q)
  from Cons.prems obtain c where c: "step t q = Some c" "lookup c Q = Some p"
    by (auto split: option.splits)
  with Cons.IH [OF c(2)] show ?case
    by (simp add: assign_path_Cons step_get_prop)
qed

lemma handleNestedChange_error:
  "assign_path t P v = Inl e \<Longrightarrow> handleNestedChange t P v = Inl e"
  by (simp add: handleNestedChange_def)

text \<open>
  Claim C3, amended. Let a path lead, through existing nodes, to an object or an
  array. When the path continues through a field that the object neither has nor
  inherits from \<^verbatim>\<open>Object.prototype\<close>, or through a slot beyond the end of the array, the
  update fails with \<^verbatim>\<open>TypeError\<close>, and no new tree is produced. When the path ends at a
  field that the object does not have (other than \<open>__proto__\<close>, and the path not being
  of the cascade shape), or at a slot beyond the end of the array, the update does not
  fail: the field or slot is created with the new value.
\<close>

theorem handleNestedChange_missing:
  "(lookup t Q = Some (Obj kvs) \<and> map_of kvs k = None \<and> k \<notin> set object_prototype_names \<and> R \<noteq> []
      \<longrightarrow> handleNestedChange t (Q @ Key k # R) v = Inl TypeError)
   \<and> (lookup t Q = Some (Arr xs) \<and> length xs \<le> n \<and> R \<noteq> []
      \<longrightarrow> handleNestedChange t (Q @ Idx n # R) v = Inl TypeError)
   \<and> (lookup t Q = Some (Obj kvs) \<and> map_of kvs k = None \<and> k \<noteq> ''__proto__''
        \<and> \<not> cascade_path (Q @ [Key k])
      \<longrightarrow> (\<exists>t'. handleNestedChange t (Q @ [Key k]) v = Inr t'
             \<and> lookup t (Q @ [Key k]) = None \<and> lookup t' (Q @ [Key k]) = Some v))
   \<and> (lookup t Q = Some (Arr xs) \<and> length xs \<le> n
      \<longrightarrow> (\<exists>t'. handleNestedChange t (Q @ [Idx n]) v = Inr t'
             \<and> lookup t (Q @ [Idx n]) = None \<and> lookup t' (Q @ [Idx n]) = Some v))"
proof (intro conjI impI)
  assume a: "lookup t Q = Some (Obj kvs) \<and> map_of kvs k = None \<and> k \<notin> set object_prototype_names
    \<and> R \<noteq> []"
  then have "get_prop (Obj kvs) (Key k) = Inr Undefined" by simp
  with a have "assign_path t (Q @ Key k # R) v = Inl TypeError"
    by (intro assign_path_missing) auto
  then show "handleNestedChange t (Q @ Key k # R) v = Inl TypeError"
    by (rule handleNestedChange_error)
next
  assume a: "lookup t Q = Some (Arr xs) \<and> length xs \<le> n \<and> R \<noteq> []"
  then have "get_prop (Arr xs) (Idx n) = Inr Undefined" by simp
  with a have "assign_path t (Q @ Idx n # R) v = Inl TypeError"
    by (intro assign_path_missing) auto
  then show "handleNestedChange t (Q @ Idx n # R) v = Inl TypeError"
    by (rule handleNestedChange_error)
next
  assume a: "lookup t Q = Some (Obj kvs) \<and> map_of kvs k = None \<and> k \<noteq> ''__proto__''
    \<and> \<not> cascade_path (Q @ [Key k])"
  then have l: "lookup t Q = Some (Obj kvs)" by simp
  from a have "(\<exists>kvs' k'. Obj kvs = Obj kvs' \<and> Key k = Key k'
                  \<and> (map_of kvs' k' \<noteq> None \<or> k' \<noteq> ''__proto__''))
      \<or> (\<exists>xs n. Obj kvs = Arr xs \<and> Key k = Idx n)"
    by simp
  from assign_path_update [OF l this, of v] a
  show "\<exists>t'. handleNestedChange t (Q @ [Key k]) v = Inr t'
             \<and> lookup t (Q @ [Key k]) = None \<and> lookup t' (Q @ [Key k]) = Some v"
    by (auto simp: handleNestedChange_plain lookup_append)
next
  assume a: "lookup t Q = Some (Arr xs) \<and> length xs \<le> n"
  then have l: "lookup t Q = Some (Arr xs)" by simp
  have c: "\<not> cascade_path (Q @ [Idx n])"
    by (auto simp: cascade_path_def nth_append)
  have "(\<exists>kvs' k'. Arr xs = Obj kvs' \<and> Idx n = Key k'
            \<and> (map_of kvs' k' \<noteq> None \<or> k' \<noteq> ''__proto__''))
      \<or> (\<exists>xs' n'. Arr xs = Arr xs' \<and> Idx n = Idx n')"
    by simp
  from assign_path_update [OF l this, of v] a c
  show "\<exists>t'. handleNestedChange t (Q @ [Idx n]) v = Inr t'
             \<and> lookup t (Q @ [Idx n]) = None \<and> lookup t' (Q @ [Idx n]) = Some v"
    by (auto simp: handleNestedChange_plain lookup_append)
qed


lemma for_each_map:
  assumes "\<And>x. f (g x) = Inr (g (h x))"
  shows "for_each f (map (\<lambda>x. Some (g x)) xs) = Inr (map (\<lambda>x. Some (g (h x))) xs)"
  by (induction xs) (simp_all add: assms)

lemma get_prop_map_Idx:
  "i < length xs \<Longrightarrow> get_prop (Arr (map (\<lambda>x. Some (g x)) xs)) (Idx i) = Inr (g (xs ! i))"
  by simp

lemma set_prop_map_Idx:
  "i < length xs \<Longrightarrow>
   set_prop (Arr (map (\<lambda>x. Some (g x)) xs)) (Idx i) (g y)
     = Inr (Arr (map (\<lambda>x. Some (g x)) (xs[i := y])))"
  by (simp add: map_update)

lemma content_js_thumbnail:
  "set_prop (content_js c) (Key ''thumbnail'') (Str v)
     = Inr (content_js (c\<lparr>content_thumbnail := Some v\<rparr>))"
  by (simp add: content_js_def own_update_def index_key_fields split: option.splits)

lemma section_js_contents:
  "get_prop (section_js s) (Key ''contents'')
     = Inr (Arr (map (\<lambda>c. Some (content_js c)) (section_contents s)))"
  "set_prop (section_js s) (Key ''contents'') (Arr (map (\<lambda>c. Some (content_js c)) cs))
     = Inr (section_js (s\<lparr>section_contents := cs\<rparr>))"
  by (simp_all add: section_js_def own_update_def)

lemma subject_js_sections:
  "get_prop (subject_js s) (Key ''sections'')
     = Inr (Arr (map (\<lambda>x. Some (section_js x)) (subject_sections s)))"
  "set_prop (subject_js s) (Key ''sections'') (Arr (map (\<lambda>x. Some (section_js x)) xs))
     = Inr (subject_js (s\<lparr>subject_sections := xs\<rparr>))"
  "set_prop (subject_js s) (Key ''thumbnail'') (Str v)
     = Inr (subject_js (s\<lparr>subject_thumbnail := v\<rparr>))"
  by (simp_all add: subject_js_def own_update_def)

lemma batch_js_subjects:
  "get_prop (batch_js b) (Key ''subjects'')
     = Inr (Arr (map (\<lambda>s. Some (subject_js s)) (batch_subjects b)))"
  "set_prop (batch_js b) (Key ''subjects'') (Arr (map (\<lambda>s. Some (subject_js s)) xs))
     = Inr (batch_js (b\<lparr>batch_subjects := xs\<rparr>))"
  by (simp_all add: batch_js_def own_update_def split: option.splits)

lemma cascade_section:
  "update_prop (section_js sec) (Key ''contents'')
     (\<lambda>contents. forEach contents (\<lambda>content. set_prop content (Key ''thumbnail'') (Str v)))
   = Inr (section_js (sec\<lparr>section_contents :=
            map (\<lambda>c. c\<lparr>content_thumbnail := Some v\<rparr>) (section_contents sec)\<rparr>))"
proof -
  have "for_each (\<lambda>content. set_prop content (Key ''thumbnail'') (Str v))
          (map (\<lambda>c. Some (content_js c)) (section_contents sec))
        = Inr (map (\<lambda>c. Some (content_js (c\<lparr>content_thumbnail := Some v\<rparr>))) (section_contents sec))"
    by (rule for_each_map) (rule content_js_thumbnail)
  then show ?thesis
    using section_js_contents(2) [of sec "map (\<lambda>c. c\<lparr>content_thumbnail := Some v\<rparr>) (section_contents sec)"]
    by (simp add: update_prop_def section_js_contents(1) comp_def del: set_prop.simps get_prop.simps)
qed

lemma cascade_subject_js:
  "update_prop (subject_js s) (Key ''sections'')
     (\<lambda>sections. forEach sections (\<lambda>section.
        update_prop section (Key ''contents'')
          (\<lambda>contents. forEach contents (\<lambda>content. set_prop content (Key ''thumbnail'') (Str v)))))
   = Inr (subject_js (s\<lparr>subject_sections :=
            map (\<lambda>sec. sec\<lparr>section_contents :=
                   map (\<lambda>c. c\<lparr>content_thumbnail := Some v\<rparr>) (section_contents sec)\<rparr>)
              (subject_sections s)\<rparr>))"
proof -
  have "for_each (\<lambda>section.
          update_prop section (Key ''contents'')
            (\<lambda>contents. forEach contents (\<lambda>content. set_prop content (Key ''thumbnail'') (Str v))))
          (map (\<lambda>x. Some (section_js x)) (subject_sections s))
        = Inr (map (\<lambda>x. Some (section_js (x\<lparr>section_contents :=
                   map (\<lambda>c. c\<lparr>content_thumbnail := Some v\<rparr>) (section_contents x)\<rparr>)))
                 (subject_sections s))"
    by (rule for_each_map) (rule cascade_section)
  then show ?thesis
    using subject_js_sections(2) [of s "map (\<lambda>sec. sec\<lparr>section_contents :=
                   map (\<lambda>c. c\<lparr>content_thumbnail := Some v\<rparr>) (section_contents sec)\<rparr>)
              (subject_sections s)"]
    by (simp add: update_prop_def subject_js_sections(1) comp_def del: set_prop.simps get_prop.simps)
qed

lemma handleNestedChange_subject_thumbnail:
  assumes "i < length (batch_subjects b)"
  shows "handleNestedChange (batch_js b) [Key ''subjects'', Idx i, Key ''thumbnail''] (Str v)
         = Inr (batch_js (cascade_batch b i v))"
proof -
  let ?subs = "batch_subjects b"
  let ?s1 = "(?subs ! i)\<lparr>subject_thumbnail := v\<rparr>"
  let ?b1 = "b\<lparr>batch_subjects := ?subs[i := ?s1]\<rparr>"
  have a: "assign_path (batch_js b) [Key ''subjects'', Idx i, Key ''thumbnail''] (Str v)
           = Inr (batch_js ?b1)"
    using assms set_prop_map_Idx [of i ?subs subject_js ?s1]
      batch_js_subjects(2) [of b "?subs[i := ?s1]"]
    by (simp add: batch_js_subjects(1) subject_js_sections(3) get_prop_map_Idx
        del: set_prop.simps get_prop.simps)
  have s1: "cascade_subject v (?subs ! i)
      = ?s1\<lparr>subject_sections :=
            map (\<lambda>sec. sec\<lparr>section_contents :=
                   map (\<lambda>c. c\<lparr>content_thumbnail := Some v\<rparr>) (section_contents sec)\<rparr>)
              (subject_sections ?s1)\<rparr>"
    by (simp add: cascade_subject_def)
  have c: "cascade_thumbnail (batch_js ?b1) (Idx i) (Str v) = Inr (batch_js (cascade_batch b i v))"
    using assms
      set_prop_map_Idx [of i "?subs[i := ?s1]" subject_js "cascade_subject v (?subs ! i)"]
      batch_js_subjects(2) [of ?b1 "?subs[i := cascade_subject v (?subs ! i)]"]
      cascade_subject_js [of ?s1 v]
    by (simp add: cascade_thumbnail_def update_prop_def [of "batch_js ?b1"]
        update_prop_def [of "Arr xs" for xs] batch_js_subjects(1) s1 cascade_batch_def
        get_prop_map_Idx
        del: set_prop.simps get_prop.simps)
  from a c show ?thesis by (simp add: handleNestedChange_def)
qed


text \<open>
  Claim C1. For every batch, every index \<open>i\<close> of one of its subjects and every value
  \<open>v\<close>, the update at the path subjects, \<open>i\<close>, thumbnail gives the tree in which the
  thumbnail of subject \<open>i\<close> is \<open>v\<close>, the thumbnail of every content of every section of
  subject \<open>i\<close> is \<open>v\<close>, and every other subject, with its contents, is as before.
\<close>

theorem handleNestedChange_cascade:
  assumes "i < length (batch_subjects b)"
  shows "handleNestedChange (batch_js b) [Key ''subjects'', Idx i, Key ''thumbnail''] (Str v)
           = Inr (batch_js (cascade_batch b i v))
         \<and> length (batch_subjects (cascade_batch b i v)) = length (batch_subjects b)
         \<and> subject_thumbnail (batch_subjects (cascade_batch b i v) ! i) = v
         \<and> (\<forall>sec \<in> set (subject_sections (batch_subjects (cascade_batch b i v) ! i)).
              \<forall>c \<in> set (section_contents sec). content_thumbnail c = Some v)
         \<and> (\<forall>j < length (batch_subjects b).
              j \<noteq> i \<longrightarrow> batch_subjects (cascade_batch b i v) ! j = batch_subjects b ! j)"
proof (intro conjI)
  show "handleNestedChange (batch_js b) [Key ''subjects'', Idx i, Key ''thumbnail''] (Str v)
           = Inr (batch_js (cascade_batch b i v))"
    using assms by (rule handleNestedChange_subject_thumbnail)
  show "length (batch_subjects (cascade_batch b i v)) = length (batch_subjects b)"
    by (simp add: cascade_batch_def)
  show "subject_thumbnail (batch_subjects (cascade_batch b i v) ! i) = v"
    using assms by (simp add: cascade_batch_def cascade_subject_def)
  show "\<forall>sec \<in> set (subject_sections (batch_subjects (cascade_batch b i v) ! i)).
          \<forall>c \<in> set (section_contents sec). content_thumbnail c = Some v"
    using assms by (auto simp: cascade_batch_def cascade_subject_def)
  show "\<forall>j < length (batch_subjects b).
          j \<noteq> i \<longrightarrow> batch_subjects (cascade_batch b i v) ! j = batch_subjects b ! j"
    by (simp add: cascade_batch_def)
qed

theorem handleNestedChange_cascade_witness:
  "handleNestedChange (batch_js example_batch) [Key ''subjects'', Idx 0, Key ''thumbnail''] (Str ''new'')
     = Inr (batch_js (cascade_batch example_batch 0 ''new''))
   \<and> map (map (map content_thumbnail \<circ> section_contents) \<circ> subject_sections)
        (batch_subjects (cascade_batch example_batch 0 ''new''))
      = [[[Some ''new'', Some ''new'']], [[Some ''p'']]]"
proof -
  have i: "0 < length (batch_subjects example_batch)"
    by (simp add: example_batch_def)
  have "map (map (map content_thumbnail \<circ> section_contents) \<circ> subject_sections)
        (batch_subjects (cascade_batch example_batch 0 ''new''))
      = [[[Some ''new'', Some ''new'']], [[Some ''p'']]]"
    by (simp add: cascade_batch_def cascade_subject_def example_batch_def)
  with handleNestedChange_cascade [OF i, of "''new''"] show ?thesis by blast
qed




text \<open>
  Claim C3, as stated, fails: a path ending in a field that the subject does not have,
  and a path ending in a slot beyond the end of the subjects, do not raise; the field
  and the slot are created.
\<close>

theorem handleNestedChange_creates_missing:
  "lookup (batch_js example_batch) [Key ''subjects'', Idx 0, Key ''nickname''] = None
   \<and> \<not> isl (handleNestedChange (batch_js example_batch)
              [Key ''subjects'', Idx 0, Key ''nickname''] (Str ''x''))
   \<and> lookup (projr (handleNestedChange (batch_js example_batch)
                     [Key ''subjects'', Idx 0, Key ''nickname''] (Str ''x'')))
        [Key ''subjects'', Idx 0, Key ''nickname'']
      = Some (Str ''x'')
   \<and> lookup (batch_js example_batch) [Key ''subjects'', Idx 2] = None
   \<and> \<not> isl (handleNestedChange (batch_js example_batch) [Key ''subjects'', Idx 2] (Str ''x''))
   \<and> lookup (projr (handleNestedChange (batch_js example_batch)
                     [Key ''subjects'', Idx 2] (Str ''x'')))
        [Key ''subjects'', Idx 2]
      = Some (Str ''x'')"
  by code_simp

theorem handleNestedChange_missing_witness:
  "handleNestedChange (Obj [(''name'', Str ''B''), (''subjects'', Arr [])])
     [Key ''foo'', Key ''bar''] (Str ''x'') = Inl TypeError
   \<and> handleNestedChange (Obj [(''name'', Str ''B''), (''subjects'', Arr [])])
     [Key ''subjects'', Idx 0, Key ''name''] (Str ''x'') = Inl TypeError
   \<and> lookup (projr (handleNestedChange (Obj [(''name'', Str ''B''), (''subjects'', Arr [])])
                     [Key ''foo''] (Str ''x'')))
       [Key ''foo''] = Some (Str ''x'')
   \<and> lookup (projr (handleNestedChange (Obj [(''name'', Str ''B''), (''subjects'', Arr [])])
                     [Key ''subjects'', Idx 0] (Str ''x'')))
       [Key ''subjects'', Idx 0] = Some (Str ''x'')"
proof -
  let ?t = "Obj [(''name'', Str ''B''), (''subjects'', Arr [])]"
  let ?kvs = "[(''name'', Str ''B''), (''subjects'', Arr [])]"
  have l0: "lookup ?t [] = Some (Obj ?kvs)" "map_of ?kvs ''foo'' = None" by simp_all
  have f: "''foo'' \<notin> set object_prototype_names" "''foo'' \<noteq> ''__proto__''"
    by (simp_all add: object_prototype_names_def)
  have l1: "lookup ?t [Key ''subjects''] = Some (Arr [])" by simp
  have c: "\<not> cascade_path ([] @ [Key ''foo''])" by (simp add: cascade_path_def)
  note m0 = handleNestedChange_missing
    [where t = ?t and Q = "[]" and kvs = ?kvs and k = "''foo''" and R = "[Key ''bar'']"
       and xs = "[]" and n = 0 and v = "Str ''x''"]
  note m1 = handleNestedChange_missing
    [where t = ?t and Q = "[Key ''subjects'']" and kvs = ?kvs and k = "''foo''"
       and R = "[Key ''name'']" and xs = "[]" and n = 0 and v = "Str ''x''"]
  have a: "handleNestedChange ?t [Key ''foo'', Key ''bar''] (Str ''x'') = Inl TypeError"
    using m0 l0 f by simp
  have b: "handleNestedChange ?t [Key ''subjects'', Idx 0, Key ''name''] (Str ''x'') = Inl TypeError"
    using m1 l1 by simp
  have d: "lookup (projr (handleNestedChange ?t [Key ''foo''] (Str ''x''))) [Key ''foo'']
      = Some (Str ''x'')"
    using m0 l0 c f by (metis append_Nil sum.sel(2))
  have e: "lookup (projr (handleNestedChange ?t [Key ''subjects'', Idx 0] (Str ''x'')))
      [Key ''subjects'', Idx 0] = Some (Str ''x'')"
    using m1 l1 by (metis append_Cons append_Nil le_refl list.size(3) sum.sel(2))
  from a b d e show ?thesis by blast
qed

section \<open>Properties of bulk apply\<close>

lemma all_contents_bulk_recipe:
  "all_contents (bulk_recipe sel u b)
     = map (\<lambda>c. if content_id c \<in> set sel then c\<lparr>content_thumbnail := Some (trim u)\<rparr> else c)
         (all_contents b)"
  by (simp add: all_contents_def bulk_recipe_def map_concat comp_def)

lemma bulk_recipe_frame:
  "(bulk_recipe sel u b)\<lparr>batch_subjects := []\<rparr> = b\<lparr>batch_subjects := []\<rparr>"
  "map (\<lambda>s. s\<lparr>subject_sections := []\<rparr>) (batch_subjects (bulk_recipe sel u b))
     = map (\<lambda>s. s\<lparr>subject_sections := []\<rparr>) (batch_subjects b)"
  "map (\<lambda>s. map (\<lambda>x. x\<lparr>section_contents := []\<rparr>) (subject_sections s))
       (batch_subjects (bulk_recipe sel u b))
     = map (\<lambda>s. map (\<lambda>x. x\<lparr>section_contents := []\<rparr>) (subject_sections s)) (batch_subjects b)"
  "map (\<lambda>s. map (\<lambda>x. length (section_contents x)) (subject_sections s))
       (batch_subjects (bulk_recipe sel u b))
     = map (\<lambda>s. map (\<lambda>x. length (section_contents x)) (subject_sections s)) (batch_subjects b)"
  by (simp_all add: bulk_recipe_def comp_def)


text \<open>
  Claim C5, as stated, fails for a value with surrounding whitespace: applying
  \<open>'' T ''\<close> to the selection of \<open>c1\<close> stores \<open>''T''\<close>, not the applied value.
\<close>

theorem applyBulkThumbnail_stores_trimmed:
  "content_thumbnail
     (hd (all_contents (batchData (snd (applyBulkThumbnail
        \<lparr>batchData = example_batch, selectedContents = [''c1''],
         bulkThumbnailUrl = '' T '', showBulkThumbnail = True\<rparr>)))))
   \<noteq> Some '' T ''
   \<and> map content_thumbnail
       (all_contents (batchData (snd (applyBulkThumbnail
          \<lparr>batchData = example_batch, selectedContents = [''c1''],
           bulkThumbnailUrl = '' T '', showBulkThumbnail = True\<rparr>))))
     = [Some ''T'', None, Some ''p'']"
  by code_simp

text \<open>
  Claim C5, amended. When the selection is empty or the value is empty or all
  whitespace, bulk apply reports the validation failure and the whole state, the tree
  included, is unchanged. Otherwise it reports success, clears the selection, and
  replaces the thumbnail of exactly the contents whose identifier is selected by the
  trimmed value; every other content, the number and order of the contents, and every
  field of the sections, the subjects and the batch are unchanged.
\<close>

theorem applyBulkThumbnail_selected:
  "(selectedContents st = [] \<or> all_whitespace (bulkThumbnailUrl st)
      \<longrightarrow> applyBulkThumbnail st
            = (ToastError ''Please enter a thumbnail URL and select content items'', st))
   \<and> (selectedContents st \<noteq> [] \<and> \<not> all_whitespace (bulkThumbnailUrl st)
      \<longrightarrow> (\<exists>msg. fst (applyBulkThumbnail st) = ToastSuccess msg)
        \<and> selectedContents (snd (applyBulkThumbnail st)) = []
        \<and> all_contents (batchData (snd (applyBulkThumbnail st)))
            = map (\<lambda>c. if content_id c \<in> set (selectedContents st)
                        then c\<lparr>content_thumbnail := Some (trim (bulkThumbnailUrl st))\<rparr>
                        else c)
                (all_contents (batchData st))
        \<and> (batchData (snd (applyBulkThumbnail st)))\<lparr>batch_subjects := []\<rparr>
            = (batchData st)\<lparr>batch_subjects := []\<rparr>
        \<and> map (\<lambda>s. s\<lparr>subject_sections := []\<rparr>)
              (batch_subjects (batchData (snd (applyBulkThumbnail st))))
            = map (\<lambda>s. s\<lparr>subject_sections := []\<rparr>) (batch_subjects (batchData st))
        \<and> map (\<lambda>s. map (\<lambda>x. x\<lparr>section_contents := []\<rparr>) (subject_sections s))
              (batch_subjects (batchData (snd (applyBulkThumbnail st))))
            = map (\<lambda>s. map (\<lambda>x. x\<lparr>section_contents := []\<rparr>) (subject_sections s))
                (batch_subjects (batchData st))
        \<and> map (\<lambda>s. map (\<lambda>x. length (section_contents x)) (subject_sections s))
              (batch_subjects (batchData (snd (applyBulkThumbnail st))))
            = map (\<lambda>s. map (\<lambda>x. length (section_contents x)) (subject_sections s))
                (batch_subjects (batchData st)))"
proof (intro conjI impI)
  assume "selectedContents st = [] \<or> all_whitespace (bulkThumbnailUrl st)"
  then show "applyBulkThumbnail st
      = (ToastError ''Please enter a thumbnail URL and select content items'', st)"
    by (auto simp: applyBulkThumbnail_def trim_empty_iff)
next
  assume a: "selectedContents st \<noteq> [] \<and> \<not> all_whitespace (bulkThumbnailUrl st)"
  then have ok: "\<not> (trim (bulkThumbnailUrl st) = [] \<or> length (remdups (selectedContents st)) = 0)"
    by (simp add: trim_empty_iff)
  then have r: "applyBulkThumbnail st =
      (ToastSuccess
         (''Updated '' @ decimal (length (remdups (selectedContents st))) @ '' thumbnails!''),
       st\<lparr>batchData := bulk_recipe (selectedContents st) (bulkThumbnailUrl st) (batchData st),
          selectedContents := [],
          bulkThumbnailUrl := [],
          showBulkThumbnail := False\<rparr>)"
    unfolding applyBulkThumbnail_def by (simp only: if_False)
  show "\<exists>msg. fst (applyBulkThumbnail st) = ToastSuccess msg"
    by (simp add: r)
  show "selectedContents (snd (applyBulkThumbnail st)) = []"
    by (simp add: r)
  show "all_contents (batchData (snd (applyBulkThumbnail st)))
        = map (\<lambda>c. if content_id c \<in> set (selectedContents st)
                    then c\<lparr>content_thumbnail := Some (trim (bulkThumbnailUrl st))\<rparr>
                    else c)
            (all_contents (batchData st))"
    by (simp add: r all_contents_bulk_recipe)
  show "(batchData (snd (applyBulkThumbnail st)))\<lparr>batch_subjects := []\<rparr>
        = (batchData st)\<lparr>batch_subjects := []\<rparr>"
    by (simp add: r bulk_recipe_frame(1))
  show "map (\<lambda>s. s\<lparr>subject_sections := []\<rparr>)
          (batch_subjects (batchData (snd (applyBulkThumbnail st))))
        = map (\<lambda>s. s\<lparr>subject_sections := []\<rparr>) (batch_subjects (batchData st))"
    by (simp add: r bulk_recipe_frame(2))
  show "map (\<lambda>s. map (\<lambda>x. x\<lparr>section_contents := []\<rparr>) (subject_sections s))
          (batch_subjects (batchData (snd (applyBulkThumbnail st))))
        = map (\<lambda>s. map (\<lambda>x. x\<lparr>section_contents := []\<rparr>) (subject_sections s))
            (batch_subjects (batchData st))"
    by (simp add: r bulk_recipe_frame(3))
  show "map (\<lambda>s. map (\<lambda>x. length (section_contents x)) (subject_sections s))
          (batch_subjects (batchData (snd (applyBulkThumbnail st))))
        = map (\<lambda>s. map (\<lambda>x. length (section_contents x)) (subject_sections s))
            (batch_subjects (batchData st))"
    by (simp add: r bulk_recipe_frame(4))
qed

theorem applyBulkThumbnail_selected_witness:
  "applyBulkThumbnail
     \<lparr>batchData = example_batch, selectedContents = [], bulkThumbnailUrl = ''T'',
      showBulkThumbnail = True\<rparr>
   = (ToastError ''Please enter a thumbnail URL and select content items'',
      \<lparr>batchData = example_batch, selectedContents = [], bulkThumbnailUrl = ''T'',
       showBulkThumbnail = True\<rparr>)
   \<and> selectedContents (snd (applyBulkThumbnail
        \<lparr>batchData = example_batch, selectedContents = [''c1'', ''c3''], bulkThumbnailUrl = ''T'',
         showBulkThumbnail = True\<rparr>)) = []
   \<and> map (\<lambda>c. (content_id c, content_thumbnail c))
       (all_contents (batchData (snd (applyBulkThumbnail
          \<lparr>batchData = example_batch, selectedContents = [''c1'', ''c3''], bulkThumbnailUrl = ''T'',
           showBulkThumbnail = True\<rparr>))))
     = [(''c1'', Some ''T''), (''c2'', None), (''c3'', Some ''T'')]"
proof -
  let ?st0 = "\<lparr>batchData = example_batch, selectedContents = [], bulkThumbnailUrl = ''T'',
      showBulkThumbnail = True\<rparr>"
  let ?st1 = "\<lparr>batchData = example_batch, selectedContents = [''c1'', ''c3''],
      bulkThumbnailUrl = ''T'', showBulkThumbnail = True\<rparr>"
  have h0: "selectedContents ?st0 = [] \<or> all_whitespace (bulkThumbnailUrl ?st0)" by simp
  have "trim ''T'' \<noteq> []" by code_simp
  then have h1: "selectedContents ?st1 \<noteq> [] \<and> \<not> all_whitespace (bulkThumbnailUrl ?st1)"
    by (simp add: trim_empty_iff [symmetric])
  have t: "trim (bulkThumbnailUrl ?st1) = ''T''" by code_simp
  have c: "map (\<lambda>c. (content_id c, content_thumbnail c))
        (map (\<lambda>c. if content_id c \<in> set (selectedContents ?st1)
                    then c\<lparr>content_thumbnail := Some ''T''\<rparr> else c)
           (all_contents (batchData ?st1)))
      = [(''c1'', Some ''T''), (''c2'', None), (''c3'', Some ''T'')]"
    by (simp add: all_contents_def example_batch_def)
  from applyBulkThumbnail_selected [of ?st0] h0
  have a: "applyBulkThumbnail ?st0
      = (ToastError ''Please enter a thumbnail URL and select content items'', ?st0)"
    by blast
  from applyBulkThumbnail_selected [of ?st1] h1
  have b: "selectedContents (snd (applyBulkThumbnail ?st1)) = []"
    and d: "all_contents (batchData (snd (applyBulkThumbnail ?st1)))
        = map (\<lambda>c. if content_id c \<in> set (selectedContents ?st1)
                    then c\<lparr>content_thumbnail := Some (trim (bulkThumbnailUrl ?st1))\<rparr>
                    else c)
            (all_contents (batchData ?st1))"
    by blast+
  from d t c have e: "map (\<lambda>c. (content_id c, content_thumbnail c))
       (all_contents (batchData (snd (applyBulkThumbnail ?st1))))
     = [(''c1'', Some ''T''), (''c2'', None), (''c3'', Some ''T'')]"
    by (simp only:)
  from a b e show ?thesis by blast
qed

end
